theory Spec2Isabelle
  imports Complex_Main "HOL-Library.Stream" "HOL-Library.Multiset"
begin

section \<open>Data model (crm/models.py)\<close>

text \<open>
  A \<open>DateTimeField\<close> holds a Python \<open>datetime\<close>. It is modelled by the number of
  microseconds since 0001-01-01T00:00:00 UTC, the smallest value Python can represent;
  the largest is 9999-12-31T23:59:59.999999, the last microsecond of day number 3652059.
  All times are timezone aware (UTC), so they are totally ordered.
\<close>

type_synonym datetime = int

definition us_per_day :: int where
  "us_per_day = 86400000000"

definition datetime_ok :: "datetime \<Rightarrow> bool" where
  "datetime_ok t = (0 \<le> t \<and> t < 3652059 * us_per_day)"

text \<open>
  The exceptions of the modelled code. \<open>OverflowError\<close> is what Python's
  \<open>timedelta(days=...)\<close> and \<open>datetime - timedelta\<close> raise out of range.
  \<open>IntegerOutOfRange\<close> is the error of the database layer when a value does not fit
  a \<open>BigIntegerField\<close> column (its class depends on the back end).
\<close>

datatype error =
    Customer_DoesNotExist
  | Campaign_DoesNotExist
  | MultipleObjectsReturned
  | OverflowError string
  | IntegerOutOfRange
  | Http404
  | ValidationError string

text \<open>A \<open>BigIntegerField\<close> column holds the signed 64-bit integers.\<close>

definition bigint_ok :: "int \<Rightarrow> bool" where
  "bigint_ok n = (- (2 ^ 63) \<le> n \<and> n < 2 ^ 63)"

text \<open>Python's \<open>str\<close> of an integer, as f-strings and exception messages print it.\<close>

definition digit_char :: "int \<Rightarrow> char" where
  "digit_char d = ''0123456789'' ! nat d"

function str_digits :: "int \<Rightarrow> string" where
  "str_digits n = (if n < 10 then [digit_char n]
                   else str_digits (n div 10) @ [digit_char (n mod 10)])"
  by pat_completeness auto
termination
  by (relation "measure nat") auto

declare str_digits.simps [simp del]

definition str_int :: "int \<Rightarrow> string" where
  "str_int i = (if i < 0 then CHR ''-'' # str_digits (- i) else str_digits i)"

text \<open>
  One record per model class, one field per column that the service layer and the task
  read or write. The primary key \<open>id\<close> and the foreign keys are integers. The
  \<open>created_at\<close> columns and the Restaurant table (only referenced by key) are left out;
  a table is the list of its rows in the order a query returns them.
  In Python the values of \<open>spend_cents\<close>, \<open>total_spend_cents\<close> and
  \<open>segment_value\<close> are unbounded integers. \<open>Visit.spend_cents\<close> and
  \<open>Customer.total_spend_cents\<close> are \<open>BigIntegerField\<close> columns: writing a value
  that is not \<open>bigint_ok\<close> to one of them fails. \<open>Campaign.segment_value\<close> is only
  read by the modelled code.
\<close>

record customer =
  customer_id :: int
  customer_restaurant :: int
  email :: string
  first_name :: string
  last_name :: string
  total_spend_cents :: int
  last_visit_at :: "datetime option"

record visit =
  visit_id :: int
  visit_customer :: int
  visited_at :: datetime
  spend_cents :: int

record campaign =
  campaign_id :: int
  campaign_restaurant :: int
  campaign_name :: string
  campaign_status :: string
  segment_type :: string
  segment_value :: int
  message_template :: string

record outreach_event =
  event_id :: int
  event_campaign :: int
  event_customer :: int
  channel :: string
  event_status :: string
  error_message :: "string option"
  sent_at :: "datetime option"

text \<open>
  The state the code runs in: the four tables, the next key of the two tables that get
  new rows, the clock (the values that the successive calls of \<open>timezone.now()\<close> in
  the service layer and the task return; the \<open>created_at\<close> columns being left out, the
  readings that fill them are not part of it) and the random source (the values
  successive calls of \<open>random.random()\<close> return).
\<close>

record world =
  customers :: "customer list"
  visits :: "visit list"
  campaigns :: "campaign list"
  outreach_events :: "outreach_event list"
  next_visit_id :: int
  next_event_id :: int
  clock :: "datetime stream"
  rng :: "rat stream"

definition timezone_now :: "world \<Rightarrow> datetime \<times> world" where
  "timezone_now w = (shd (clock w), w\<lparr>clock := stl (clock w)\<rparr>)"

text \<open>\<open>Model.objects.get(...)\<close>: exactly one matching row, or one of two exceptions.\<close>

datatype 'a get_result = DoesNotExist | Found 'a | Multiple

definition objects_get :: "('a \<Rightarrow> bool) \<Rightarrow> 'a list \<Rightarrow> 'a get_result" where
  "objects_get p rows =
     (case List.filter p rows of
        [] \<Rightarrow> DoesNotExist
      | [x] \<Rightarrow> Found x
      | _ \<Rightarrow> Multiple)"

section \<open>Ledger (crm/services.py, record_visit)\<close>

text \<open>The \<open>customer\<close> argument is a Customer instance or a primary key.\<close>

datatype customer_ref = ById int | ByInstance customer

fun ref_pk :: "customer_ref \<Rightarrow> int" where
  "ref_pk (ById n) = n"
| "ref_pk (ByInstance c) = customer_id c"

text \<open>
  \<open>customer.save(update_fields=['total_spend_cents', 'last_visit_at'])\<close> writes the two
  columns of the row with the instance's primary key.
\<close>

definition save_customer_totals :: "customer \<Rightarrow> customer list \<Rightarrow> customer list" where
  "save_customer_totals c rows =
     map (\<lambda>r. if customer_id r = customer_id c
              then r\<lparr>total_spend_cents := total_spend_cents c, last_visit_at := last_visit_at c\<rparr>
              else r) rows"

text \<open>
  \<open>record_visit\<close> runs in one transaction. Both branches of the \<open>isinstance\<close> test
  reload the row by primary key. \<open>Visit.objects.create\<close> fails when \<open>spend_cents\<close>
  does not fit its column, \<open>customer.save\<close> fails when the new total does not fit;
  an exception rolls the transaction back, so that nothing has been written. Whether
  the primary key of a Visit whose insert is rolled back is used again depends on the
  back end; here it is.
\<close>

definition record_visit ::
  "world \<Rightarrow> customer_ref \<Rightarrow> int \<Rightarrow> datetime option \<Rightarrow> (error + visit) \<times> world" where
  "record_visit w0 customer spend visited =
     (let (occurred, w) = (case visited of None \<Rightarrow> timezone_now w0 | Some t \<Rightarrow> (t, w0)) in
      case objects_get (\<lambda>c. customer_id c = ref_pk customer) (customers w) of
        DoesNotExist \<Rightarrow> (Inl Customer_DoesNotExist, w)
      | Multiple \<Rightarrow> (Inl MultipleObjectsReturned, w)
      | Found c \<Rightarrow>
          if \<not> bigint_ok spend then (Inl IntegerOutOfRange, w)
          else
            (let v = \<lparr>visit_id = next_visit_id w, visit_customer = customer_id c,
                      visited_at = occurred, spend_cents = spend\<rparr>;
                 c1 = c\<lparr>total_spend_cents := total_spend_cents c + spend\<rparr>;
                 c2 = (case last_visit_at c1 of
                         None \<Rightarrow> c1\<lparr>last_visit_at := Some occurred\<rparr>
                       | Some l \<Rightarrow> if occurred > l then c1\<lparr>last_visit_at := Some occurred\<rparr> else c1)
             in if \<not> bigint_ok (total_spend_cents c2) then (Inl IntegerOutOfRange, w)
                else (Inr v, w\<lparr>visits := visits w @ [v],
                               next_visit_id := next_visit_id w + 1,
                               customers := save_customer_totals c2 (customers w)\<rparr>)))"

text \<open>A call of \<open>record_visit\<close>, and a sequence of calls that stops at the first exception.\<close>

record visit_call =
  call_customer :: customer_ref
  call_spend :: int
  call_visited_at :: "datetime option"

fun record_visits :: "world \<Rightarrow> visit_call list \<Rightarrow> (error + unit) \<times> world" where
  "record_visits w [] = (Inr (), w)"
| "record_visits w (k # ks) =
     (case record_visit w (call_customer k) (call_spend k) (call_visited_at k) of
        (Inl e, w') \<Rightarrow> (Inl e, w')
      | (Inr v, w') \<Rightarrow> record_visits w' ks)"

text \<open>
  The \<open>visited_at\<close> value each call of a sequence ends up using: the explicit one, or
  the clock's next reading.
\<close>

fun occurred_at :: "datetime stream \<Rightarrow> visit_call list \<Rightarrow> datetime list" where
  "occurred_at ck [] = []"
| "occurred_at ck (k # ks) =
     (case call_visited_at k of
        None \<Rightarrow> shd ck # occurred_at (stl ck) ks
      | Some t \<Rightarrow> t # occurred_at ck ks)"

section \<open>HTTP boundary (crm/serializers.py, crm/views.py, add_visit)\<close>

text \<open>
  \<open>AddVisitSerializer\<close>: \<open>spend_cents\<close> is a required integer with \<open>min_value=0\<close>,
  \<open>visited_at\<close> is optional.
\<close>

definition AddVisitSerializer ::
  "int option \<Rightarrow> datetime option \<Rightarrow> error + (int \<times> datetime option)" where
  "AddVisitSerializer spend visited =
     (case spend of
        None \<Rightarrow> Inl (ValidationError ''This field is required.'')
      | Some n \<Rightarrow>
          if n < 0 then Inl (ValidationError ''Ensure this value is greater than or equal to 0.'')
          else Inr (n, visited))"

definition add_visit ::
  "world \<Rightarrow> int \<Rightarrow> int option \<Rightarrow> datetime option \<Rightarrow> (error + visit) \<times> world" where
  "add_visit w pk spend visited =
     (case objects_get (\<lambda>c. customer_id c = pk) (customers w) of
        Found c \<Rightarrow>
          (case AddVisitSerializer spend visited of
             Inl e \<Rightarrow> (Inl e, w)
           | Inr (n, t) \<Rightarrow> record_visit w (ByInstance c) n t)
      | _ \<Rightarrow> (Inl Http404, w))"

section \<open>Segmentation (crm/services.py)\<close>

text \<open>
  \<open>timedelta(days=days)\<close> raises when the magnitude of \<open>days\<close> exceeds 999999999, and
  subtracting it from a datetime raises when the result is not a representable datetime;
  the messages are those of CPython.
\<close>

definition timedelta_days :: "int \<Rightarrow> error + int" where
  "timedelta_days days =
     (if \<bar>days\<bar> > 999999999
      then Inl (OverflowError (''days='' @ str_int days @ ''; must have magnitude <= 999999999''))
      else Inr (days * us_per_day))"

definition datetime_sub :: "datetime \<Rightarrow> int \<Rightarrow> error + datetime" where
  "datetime_sub t d =
     (if datetime_ok (t - d) then Inr (t - d) else Inl (OverflowError ''date value out of range''))"

text \<open>
  \<open>inactive_days\<close> reads the clock, then builds the cutoff; the filter is
  \<open>last_visit_at < cutoff OR last_visit_at IS NULL\<close>.
\<close>

definition inactive_days ::
  "world \<Rightarrow> customer list \<Rightarrow> int \<Rightarrow> (error + customer list) \<times> world" where
  "inactive_days w0 queryset days =
     (let (now, w) = timezone_now w0 in
      case timedelta_days days of
        Inl e \<Rightarrow> (Inl e, w)
      | Inr d \<Rightarrow>
          (case datetime_sub now d of
             Inl e \<Rightarrow> (Inl e, w)
           | Inr cutoff_date \<Rightarrow>
               (Inr (List.filter (\<lambda>c. case last_visit_at c of
                                        None \<Rightarrow> True
                                      | Some t \<Rightarrow> t < cutoff_date) queryset), w)))"

definition high_spenders :: "customer list \<Rightarrow> int \<Rightarrow> customer list" where
  "high_spenders queryset min_spend_cents =
     List.filter (\<lambda>c. total_spend_cents c \<ge> min_spend_cents) queryset"

section \<open>Outreach pipeline (crm/tasks.py, run_campaign_task)\<close>

text \<open>
  The task returns a dictionary of totals, \<open>None\<close> (the bare \<open>return\<close> of the unknown
  segment branch) or the dictionary \<open>{'error': ...}\<close> of the not-found handler.
\<close>

datatype task_result =
    Summary int nat nat nat
  | ReturnedNone
  | ErrorDict string

record totals =
  total_processed :: nat
  total_sent :: nat
  total_failed :: nat

text \<open>
  \<open>OutreachEvent.objects.get_or_create(campaign=..., customer=..., defaults=...)\<close>:
  the row with that pair if there is exactly one, a new \<open>queued\<close> \<open>email\<close> row if
  there is none, \<open>MultipleObjectsReturned\<close> otherwise.
\<close>

definition get_or_create ::
  "world \<Rightarrow> campaign \<Rightarrow> customer \<Rightarrow> (error + outreach_event \<times> bool) \<times> world" where
  "get_or_create w campaign customer =
     (case objects_get (\<lambda>e. event_campaign e = campaign_id campaign \<and>
                             event_customer e = customer_id customer) (outreach_events w) of
        Found e \<Rightarrow> (Inr (e, False), w)
      | Multiple \<Rightarrow> (Inl MultipleObjectsReturned, w)
      | DoesNotExist \<Rightarrow>
          (let e = \<lparr>event_id = next_event_id w, event_campaign = campaign_id campaign,
                    event_customer = customer_id customer, channel = ''email'',
                    event_status = ''queued'', error_message = None, sent_at = None\<rparr>
           in (Inr (e, True), w\<lparr>outreach_events := outreach_events w @ [e],
                                 next_event_id := next_event_id w + 1\<rparr>)))"

text \<open>
  \<open>event.save(update_fields=['status', 'sent_at', 'error_message'])\<close> after a send
  attempt, and \<open>event.save(update_fields=['status', 'error_message'])\<close> in the
  exception handler: the named columns of the row with the event's primary key.
\<close>

definition save_event_outcome :: "outreach_event \<Rightarrow> outreach_event list \<Rightarrow> outreach_event list" where
  "save_event_outcome ev rows =
     map (\<lambda>r. if event_id r = event_id ev
              then r\<lparr>event_status := event_status ev, sent_at := sent_at ev,
                     error_message := error_message ev\<rparr>
              else r) rows"

definition save_event_failure :: "outreach_event \<Rightarrow> outreach_event list \<Rightarrow> outreach_event list" where
  "save_event_failure ev rows =
     map (\<lambda>r. if event_id r = event_id ev
              then r\<lparr>event_status := event_status ev, error_message := error_message ev\<rparr>
              else r) rows"

definition random_random :: "world \<Rightarrow> rat \<times> world" where
  "random_random w = (shd (rng w), w\<lparr>rng := stl (rng w)\<rparr>)"

text \<open>
  The body of the inner \<open>for customer in batch_customers\<close> loop. \<open>format\<close> stands for
  Python's \<open>str.format\<close> applied to the template with \<open>first_name=...\<close>: it returns
  the message, or the text \<open>str(e)\<close> of the exception it raised. The result
  \<open>Some e\<close> is an exception that leaves the loop; only \<open>get_or_create\<close>, which is
  outside the inner \<open>try\<close>, can raise one.
\<close>

fun process_customer ::
  "(string \<Rightarrow> string \<Rightarrow> string + string) \<Rightarrow> campaign \<Rightarrow> customer \<Rightarrow>
   world \<times> totals \<Rightarrow> error option \<times> world \<times> totals" where
  "process_customer format campaign customer (w0, n) =
     (case get_or_create w0 campaign customer of
        (Inl e, w) \<Rightarrow> (Some e, w, n)
      | (Inr (event, created), w) \<Rightarrow>
          if event_status event = ''sent'' \<or> event_status event = ''skipped''
          then (None, w, n)
          else
            (case format (message_template campaign) (first_name customer) of
               Inr message \<Rightarrow>
                 (let (r, w1) = random_random w in
                  if r < 9 / 10 then
                    (let (now, w2) = timezone_now w1;
                         event' = event\<lparr>event_status := ''sent'', sent_at := Some now,
                                        error_message := None\<rparr>
                     in (None,
                         w2\<lparr>outreach_events := save_event_outcome event' (outreach_events w2)\<rparr>,
                         n\<lparr>total_sent := total_sent n + 1,
                           total_processed := total_processed n + 1\<rparr>))
                  else
                    (let event' = event\<lparr>event_status := ''failed'',
                           error_message := Some ''Simulated email delivery failure''\<rparr>
                     in (None,
                         w1\<lparr>outreach_events := save_event_outcome event' (outreach_events w1)\<rparr>,
                         n\<lparr>total_failed := total_failed n + 1,
                           total_processed := total_processed n + 1\<rparr>)))
             | Inl text \<Rightarrow>
                 (let event' = event\<lparr>event_status := ''failed'', error_message := Some text\<rparr>
                  in (None,
                      w\<lparr>outreach_events := save_event_failure event' (outreach_events w)\<rparr>,
                      n\<lparr>total_failed := total_failed n + 1,
                        total_processed := total_processed n + 1\<rparr>))))"

fun process_batch ::
  "(string \<Rightarrow> string \<Rightarrow> string + string) \<Rightarrow> campaign \<Rightarrow> customer list \<Rightarrow>
   world \<times> totals \<Rightarrow> error option \<times> world \<times> totals" where
  "process_batch format campaign [] s = (None, s)"
| "process_batch format campaign (customer # rest) s =
     (case process_customer format campaign customer s of
        (Some e, s') \<Rightarrow> (Some e, s')
      | (None, s') \<Rightarrow> process_batch format campaign rest s')"

text \<open>
  \<open>campaign_pause\<close> (crm/internal_views.py), the request that pauses a campaign: 404
  when there is no such campaign, the status \<open>paused\<close> written when it is \<open>running\<close>,
  an error message and no write otherwise. The result is the message the view flashes
  before it redirects.
\<close>

definition save_campaign_status :: "campaign \<Rightarrow> campaign list \<Rightarrow> campaign list" where
  "save_campaign_status c rows =
     map (\<lambda>r. if campaign_id r = campaign_id c
              then r\<lparr>campaign_status := campaign_status c\<rparr> else r) rows"

definition campaign_pause :: "world \<Rightarrow> int \<Rightarrow> (error + string) \<times> world" where
  "campaign_pause w pk =
     (case objects_get (\<lambda>c. campaign_id c = pk) (campaigns w) of
        Found c \<Rightarrow>
          if campaign_status c = ''running''
          then (Inr (''Campaign '' @ [CHR 0x22] @ campaign_name c @ [CHR 0x22] @ '' paused''),
                w\<lparr>campaigns := save_campaign_status (c\<lparr>campaign_status := ''paused''\<rparr>) (campaigns w)\<rparr>)
          else (Inr (''Campaign is not running, current status: '' @ campaign_status c), w)
      | _ \<Rightarrow> (Inl Http404, w))"

text \<open>
  The outer loop, \<open>for i in range(0, len(customer_ids), batch_size)\<close>. The task runs
  outside the request path, so other requests are served while it runs; \<open>pause_at k\<close>
  says that a pause request for this campaign is served just before batch number \<open>k\<close>
  starts. Each batch reloads its customers by primary key.
\<close>

definition batch_size :: nat where
  "batch_size = 200"

function process_batches ::
  "(nat \<Rightarrow> bool) \<Rightarrow> (string \<Rightarrow> string \<Rightarrow> string + string) \<Rightarrow> campaign \<Rightarrow> nat \<Rightarrow> int list \<Rightarrow>
   world \<times> totals \<Rightarrow> error option \<times> world \<times> totals" where
  "process_batches pause_at format campaign k customer_ids (w0, n) =
     (if customer_ids = [] then (None, w0, n)
      else
        (let w = (if pause_at k then snd (campaign_pause w0 (campaign_id campaign)) else w0);
             batch_ids = take batch_size customer_ids;
             batch_customers = List.filter (\<lambda>c. customer_id c \<in> set batch_ids) (customers w)
         in case process_batch format campaign batch_customers (w, n) of
              (Some e, s) \<Rightarrow> (Some e, s)
            | (None, s) \<Rightarrow>
                process_batches pause_at format campaign (Suc k)
                  (drop batch_size customer_ids) s))"
  by pat_completeness auto
termination
  by (relation "measure (\<lambda>(pause_at, format, campaign, k, customer_ids, s). length customer_ids)")
     (auto simp: batch_size_def)

declare process_batches.simps [simp del]

text \<open>The \<open>if\<close>/\<open>elif\<close>/\<open>else\<close> on \<open>segment_type\<close>; \<open>None\<close> is the unknown kind.\<close>

definition apply_segmentation ::
  "world \<Rightarrow> campaign \<Rightarrow> customer list \<Rightarrow> (error + customer list option) \<times> world" where
  "apply_segmentation w campaign customers_queryset =
     (if segment_type campaign = ''inactive_days'' then
        (case inactive_days w customers_queryset (segment_value campaign) of
           (Inl e, w') \<Rightarrow> (Inl e, w')
         | (Inr qs, w') \<Rightarrow> (Inr (Some qs), w'))
      else if segment_type campaign = ''high_spenders'' then
        (Inr (Some (high_spenders customers_queryset (segment_value campaign))), w)
      else (Inr None, w))"

text \<open>
  The body of the outer \<open>try\<close>. An exception leaves it with the store as it is at that
  moment: the task opens no transaction, every write is committed at once.
\<close>

definition run_campaign_try ::
  "(nat \<Rightarrow> bool) \<Rightarrow> (string \<Rightarrow> string \<Rightarrow> string + string) \<Rightarrow> world \<Rightarrow> int \<Rightarrow>
   (error + task_result) \<times> world" where
  "run_campaign_try pause_at format w0 pk =
     (case objects_get (\<lambda>c. campaign_id c = pk) (campaigns w0) of
        DoesNotExist \<Rightarrow> (Inl Campaign_DoesNotExist, w0)
      | Multiple \<Rightarrow> (Inl MultipleObjectsReturned, w0)
      | Found campaign \<Rightarrow>
          (let customers_queryset =
                 List.filter (\<lambda>c. customer_restaurant c = campaign_restaurant campaign) (customers w0)
           in case apply_segmentation w0 campaign customers_queryset of
                (Inl e, w) \<Rightarrow> (Inl e, w)
              | (Inr None, w) \<Rightarrow> (Inr ReturnedNone, w)
              | (Inr (Some segment), w) \<Rightarrow>
                  (let customer_ids = map customer_id segment in
                   case process_batches pause_at format campaign 0 customer_ids
                          (w, \<lparr>total_processed = 0, total_sent = 0, total_failed = 0\<rparr>) of
                     (Some e, w', n) \<Rightarrow> (Inl e, w')
                   | (None, w', n) \<Rightarrow>
                       (Inr (Summary pk (total_processed n) (total_sent n) (total_failed n)),
                        w'\<lparr>campaigns := save_campaign_status
                              (campaign\<lparr>campaign_status := ''completed''\<rparr>) (campaigns w')\<rparr>))))"

text \<open>
  The handler of \<open>except Exception\<close>: reload the campaign, write \<open>paused\<close>; whatever
  the reload raises is swallowed by the bare \<open>except\<close>.
\<close>

definition mark_paused :: "world \<Rightarrow> int \<Rightarrow> world" where
  "mark_paused w pk =
     (case objects_get (\<lambda>c. campaign_id c = pk) (campaigns w) of
        Found campaign \<Rightarrow>
          w\<lparr>campaigns := save_campaign_status
                (campaign\<lparr>campaign_status := ''paused''\<rparr>) (campaigns w)\<rparr>
      | _ \<Rightarrow> w)"

definition run_campaign_task_interleaved ::
  "(nat \<Rightarrow> bool) \<Rightarrow> (string \<Rightarrow> string \<Rightarrow> string + string) \<Rightarrow> world \<Rightarrow> int \<Rightarrow>
   (error + task_result) \<times> world" where
  "run_campaign_task_interleaved pause_at format w pk =
     (case run_campaign_try pause_at format w pk of
        (Inr result, w') \<Rightarrow> (Inr result, w')
      | (Inl e, w') \<Rightarrow>
          if e = Campaign_DoesNotExist
          then (Inr (ErrorDict (''Campaign '' @ str_int pk @ '' not found'')), w')
          else (Inl e, mark_paused w' pk))"

text \<open>The task when no other request touches the campaign while it runs.\<close>

definition run_campaign_task ::
  "(string \<Rightarrow> string \<Rightarrow> string + string) \<Rightarrow> world \<Rightarrow> int \<Rightarrow> (error + task_result) \<times> world" where
  "run_campaign_task format w pk =
     run_campaign_task_interleaved (\<lambda>k. False) format w pk"

section \<open>Auxiliary definitions for the proofs\<close>

text \<open>The value of \<open>last_visit_at\<close> after one more visit, and after a list of visits.\<close>

definition later :: "datetime option \<Rightarrow> datetime \<Rightarrow> datetime option" where
  "later l t = (case l of None \<Rightarrow> Some t | Some x \<Rightarrow> if t > x then Some t else Some x)"

text \<open>
  The amounts of a sequence of visits, and the running totals they lead to from the
  total \<open>t\<close>, all fit the \<open>BigIntegerField\<close> columns.
\<close>

fun amounts_fit :: "int \<Rightarrow> int list \<Rightarrow> bool" where
  "amounts_fit t [] = True"
| "amounts_fit t (x # xs) = (bigint_ok x \<and> bigint_ok (t + x) \<and> amounts_fit (t + x) xs)"

fun later_all :: "datetime option \<Rightarrow> datetime list \<Rightarrow> datetime option" where
  "later_all l [] = l"
| "later_all l (t # ts) = later_all (later l t) ts"

text \<open>
  The constraints the models declare. \<open>unique_together\<close>: at most one OutreachEvent row
  per (campaign, customer) pair. \<open>primary_keys\<close>: the keys of the event rows and of the
  customer rows are unique, and the keys of the event rows lie below the next key.
\<close>

definition event_key :: "outreach_event \<Rightarrow> int \<times> int" where
  "event_key e = (event_campaign e, event_customer e)"

definition unique_together :: "world \<Rightarrow> bool" where
  "unique_together w = distinct (map event_key (outreach_events w))"

definition primary_keys :: "world \<Rightarrow> bool" where
  "primary_keys w =
     (distinct (map event_id (outreach_events w)) \<and>
      (\<forall>e \<in> set (outreach_events w). event_id e < next_event_id w) \<and>
      distinct (map customer_id (customers w)))"

text \<open>
  A terminal event is \<open>sent\<close> or \<open>skipped\<close>; a customer is settled for a campaign when
  a terminal event of the pair exists.
\<close>

definition terminal :: "outreach_event \<Rightarrow> bool" where
  "terminal e = (event_status e = ''sent'' \<or> event_status e = ''skipped'')"

definition settled :: "world \<Rightarrow> int \<Rightarrow> int \<Rightarrow> bool" where
  "settled w cid k = (\<exists>e \<in> set (outreach_events w). event_key e = (cid, k) \<and> terminal e)"

text \<open>Two versions of a row that differ at most when the row has primary key \<open>i\<close>.\<close>

definition same_but :: "int \<Rightarrow> outreach_event \<Rightarrow> outreach_event \<Rightarrow> bool" where
  "same_but i r r' =
     (event_id r' = event_id r \<and> event_key r' = event_key r \<and> (event_id r \<noteq> i \<longrightarrow> r' = r))"

text \<open>
  The row \<open>get_or_create\<close> inserts, and what an attempt makes of an event row: after
  a rendering failure the row is \<open>failed\<close> with the error text; after a send attempt
  it is \<open>failed\<close> with the delivery message, or \<open>sent\<close> with a send time and no
  error text.
\<close>

definition queued_event :: "int \<Rightarrow> int \<Rightarrow> int \<Rightarrow> outreach_event" where
  "queued_event i cid k =
     \<lparr>event_id = i, event_campaign = cid, event_customer = k, channel = ''email'',
      event_status = ''queued'', error_message = None, sent_at = None\<rparr>"

definition render_fails ::
  "(string \<Rightarrow> string \<Rightarrow> string + string) \<Rightarrow> campaign \<Rightarrow> customer \<Rightarrow> bool" where
  "render_fails format campaign customer =
     isl (format (message_template campaign) (first_name customer))"

definition attempted ::
  "(string \<Rightarrow> string \<Rightarrow> string + string) \<Rightarrow> campaign \<Rightarrow> customer \<Rightarrow>
   outreach_event \<Rightarrow> outreach_event \<Rightarrow> bool" where
  "attempted format campaign customer e e' =
     (case format (message_template campaign) (first_name customer) of
        Inl msg \<Rightarrow> e' = e\<lparr>event_status := ''failed'', error_message := Some msg\<rparr>
      | Inr message \<Rightarrow>
          e' = e\<lparr>event_status := ''failed'',
                 error_message := Some ''Simulated email delivery failure''\<rparr> \<or>
          (sent_at e' \<noteq> None \<and>
           e' = e\<lparr>event_status := ''sent'', sent_at := sent_at e', error_message := None\<rparr>))"

text \<open>
  What processing the customers \<open>C\<close> for a campaign does to the store and the
  counters: the constraints still hold, the pairs of \<open>C\<close> have a row, terminal rows
  and rows of other pairs are the same before and after, the number of customers
  processed is the number of customers of \<open>C\<close> that were not settled, each of them
  whose template does not render is counted as failed, and every event of \<open>C\<close> that
  was not terminal, or did not exist, has been attempted.
\<close>

definition run_rel ::
  "(string \<Rightarrow> string \<Rightarrow> string + string) \<Rightarrow> campaign \<Rightarrow> customer set \<Rightarrow>
   world \<times> totals \<Rightarrow> world \<times> totals \<Rightarrow> bool" where
  "run_rel format campaign C s s' =
     (unique_together (fst s') \<and> primary_keys (fst s') \<and>
      set (map event_key (outreach_events (fst s'))) =
        set (map event_key (outreach_events (fst s))) \<union>
        Pair (campaign_id campaign) ` customer_id ` C \<and>
      (\<forall>r \<in> set (outreach_events (fst s)).
          event_key r \<notin> Pair (campaign_id campaign) ` customer_id ` C \<or> terminal r \<longrightarrow>
          r \<in> set (outreach_events (fst s'))) \<and>
      (\<forall>r \<in> set (outreach_events (fst s')).
          event_key r \<notin> Pair (campaign_id campaign) ` customer_id ` C \<longrightarrow>
          r \<in> set (outreach_events (fst s))) \<and>
      customers (fst s') = customers (fst s) \<and>
      visits (fst s') = visits (fst s) \<and>
      total_processed (snd s') =
        total_processed (snd s) +
        card {cu \<in> C. \<not> settled (fst s) (campaign_id campaign) (customer_id cu)} \<and>
      total_failed (snd s') \<ge>
        total_failed (snd s) +
        card {cu \<in> C. \<not> settled (fst s) (campaign_id campaign) (customer_id cu) \<and>
                       render_fails format campaign cu} \<and>
      (\<forall>cu \<in> C. \<forall>e \<in> set (outreach_events (fst s)).
          event_key e = (campaign_id campaign, customer_id cu) \<and> \<not> terminal e \<longrightarrow>
          (\<exists>e' \<in> set (outreach_events (fst s')). attempted format campaign cu e e')) \<and>
      (\<forall>cu \<in> C.
          (campaign_id campaign, customer_id cu) \<notin> set (map event_key (outreach_events (fst s))) \<longrightarrow>
          (\<exists>e' \<in> set (outreach_events (fst s')).
              attempted format campaign cu
                (queued_event (event_id e') (campaign_id campaign) (customer_id cu)) e')))"

text \<open>The result of a loop, with the campaign table replaced.\<close>

fun with_campaigns ::
  "campaign list \<Rightarrow> error option \<times> world \<times> totals \<Rightarrow> error option \<times> world \<times> totals" where
  "with_campaigns X (r, w, n) = (r, w\<lparr>campaigns := X\<rparr>, n)"

section \<open>Example data\<close>

text \<open>
  A restaurant with two customers on 2026-11-04 (day 739923 counted from 0001-01-01 as
  day 0): one who never visited, one who visited five days before.
\<close>

definition never_visited :: customer where
  "never_visited = \<lparr>customer_id = 1, customer_restaurant = 1, email = ''ana@example.com'',
     first_name = ''Ana'', last_name = ''Diaz'', total_spend_cents = 0, last_visit_at = None\<rparr>"

definition regular :: customer where
  "regular = \<lparr>customer_id = 2, customer_restaurant = 1, email = ''bo@example.com'',
     first_name = ''Bo'', last_name = ''Chen'', total_spend_cents = 8000,
     last_visit_at = Some (739918 * us_per_day)\<rparr>"

definition ledger_world :: world where
  "ledger_world = \<lparr>customers = [never_visited, regular], visits = [], campaigns = [],
     outreach_events = [], next_visit_id = 1, next_event_id = 1,
     clock = sconst (739923 * us_per_day), rng = sconst (1 / 2)\<rparr>"

definition two_visits :: "visit_call list" where
  "two_visits = [\<lparr>call_customer = ById 1, call_spend = 5000, call_visited_at = None\<rparr>,
                 \<lparr>call_customer = ByInstance never_visited, call_spend = 2000,
                   call_visited_at = Some (739000 * us_per_day)\<rparr>]"

text \<open>Two visits of 2^62 cents each.\<close>

definition heavy_visits :: "visit_call list" where
  "heavy_visits = [\<lparr>call_customer = ById 1, call_spend = 4611686018427387904,
                      call_visited_at = None\<rparr>,
                   \<lparr>call_customer = ById 1, call_spend = 4611686018427387904,
                      call_visited_at = None\<rparr>]"

text \<open>
  A formatter for the examples. It agrees with \<open>str.format(first_name=...)\<close> on the
  templates built from literal text, doubled braces, the field \<open>{first_name}\<close> and
  stray closing braces, which are the templates of the examples. It refuses every other
  replacement field, also those that \<open>str.format\<close> accepts (a conversion or a format
  specification after the name); the theorems about the task hold for every formatter.
\<close>

function format_template :: "string \<Rightarrow> string \<Rightarrow> string + string" where
  "format_template [] name = Inr []"
| "format_template (c # cs) name =
     (if c = CHR ''{'' \<and> take 1 cs = ''{''
        then map_sum id ((#) c) (format_template (drop 1 cs) name)
      else if c = CHR ''{'' \<and> take 11 cs = ''first_name}''
        then map_sum id ((@) name) (format_template (drop 11 cs) name)
      else if c = CHR ''{''
        then Inl ''unsupported replacement field''
      else if c = CHR ''}'' \<and> take 1 cs = ''}''
        then map_sum id ((#) c) (format_template (drop 1 cs) name)
      else if c = CHR ''}''
        then Inl ''Single '}' encountered in format string''
      else map_sum id ((#) c) (format_template cs name))"
  by pat_completeness auto
termination
  by (relation "measure (\<lambda>(t, name). length t)") auto

text \<open>
  A third customer, last seen 35 days before, and four campaigns of restaurant 1: a
  win-back campaign for customers inactive for 30 days, one with a segment kind the
  task does not know, one whose cutoff lies before year 1, and one whose template has
  a stray closing brace.
\<close>

definition lapsed :: customer where
  "lapsed = \<lparr>customer_id = 3, customer_restaurant = 1, email = ''cy@example.com'',
     first_name = ''Cy'', last_name = ''Ng'', total_spend_cents = 12000,
     last_visit_at = Some (739888 * us_per_day)\<rparr>"

definition winback :: campaign where
  "winback = \<lparr>campaign_id = 1, campaign_restaurant = 1, campaign_name = ''Win back'',
     campaign_status = ''running'', segment_type = ''inactive_days'', segment_value = 30,
     message_template = ''Hello {first_name}, come back!''\<rparr>"

definition birthday :: campaign where
  "birthday = winback\<lparr>segment_type := ''birthday''\<rparr>"

definition far_back :: campaign where
  "far_back = winback\<lparr>segment_value := 1000000\<rparr>"

definition broken :: campaign where
  "broken = winback\<lparr>message_template := ''Hello {first_name}}''\<rparr>"

definition shop :: "campaign \<Rightarrow> world" where
  "shop c = \<lparr>customers = [never_visited, regular, lapsed], visits = [], campaigns = [c],
     outreach_events = [], next_visit_id = 1, next_event_id = 1,
     clock = sconst (739923 * us_per_day), rng = sconst (1 / 2)\<rparr>"

text \<open>
  A restaurant with 201 customers, one more than a batch holds, each with an email
  address of their own (\<open>guest1@example.com\<close> to \<open>guest201@example.com\<close>), and a
  running campaign for everybody who has spent at least nothing; a pause request
  arrives after the first batch.
\<close>

definition guest :: "nat \<Rightarrow> customer" where
  "guest i = \<lparr>customer_id = int i, customer_restaurant = 1,
     email = ''guest'' @ str_int (int i) @ ''@example.com'',
     first_name = ''Guest'', last_name = ''Doe'', total_spend_cents = 0, last_visit_at = None\<rparr>"

definition everyone :: campaign where
  "everyone = winback\<lparr>segment_type := ''high_spenders'', segment_value := 0\<rparr>"

definition crowd :: world where
  "crowd = \<lparr>customers = map guest [1..<202], visits = [], campaigns = [everyone],
     outreach_events = [], next_visit_id = 1, next_event_id = 1,
     clock = sconst (739923 * us_per_day), rng = sconst (1 / 2)\<rparr>"

definition after_first_batch :: "nat \<Rightarrow> bool" where
  "after_first_batch k = (k = 1)"

fun processed_count :: "error + task_result \<Rightarrow> nat" where
  "processed_count (Inr (Summary pk p s f)) = p"
| "processed_count r = 0"




section \<open>The ledger: totals after a sequence of visits\<close>

lemma objects_get_Found_iff:
  "objects_get p rows = Found x \<longleftrightarrow> List.filter p rows = [x]"
  by (auto simp: objects_get_def split: list.splits)

lemma filter_save_customer_totals:
  "List.filter (\<lambda>r. customer_id r = pk) (save_customer_totals c rows) =
   map (\<lambda>r. if customer_id r = customer_id c
              then r\<lparr>total_spend_cents := total_spend_cents c, last_visit_at := last_visit_at c\<rparr>
              else r) (List.filter (\<lambda>r. customer_id r = pk) rows)"
  by (induction rows) (auto simp: save_customer_totals_def)

lemma objects_get_customer_id:
  "objects_get (\<lambda>r. customer_id r = pk) rows = Found c \<Longrightarrow> customer_id c = pk"
  by (metis (mono_tags, lifting) objects_get_Found_iff filter_eq_ConsD)

lemma save_customer_totals_twice:
  "customer_id c2 = customer_id c1 \<Longrightarrow>
   save_customer_totals c2 (save_customer_totals c1 rows) = save_customer_totals c2 rows"
  by (induction rows) (auto simp: save_customer_totals_def)

lemma customer_last_visit_same:
  "last_visit_at c = x \<Longrightarrow> c\<lparr>last_visit_at := x\<rparr> = c"
  by auto

lemma record_visit_Found:
  assumes "objects_get (\<lambda>r. customer_id r = pk) (customers w) = Found c"
      and "ref_pk r = pk"
      and "bigint_ok spend" and "bigint_ok (total_spend_cents c + spend)"
  shows "\<exists>v w'. record_visit w r spend visited = (Inr v, w') \<and>
           spend_cents v = spend \<and> visit_customer v = pk \<and>
           visited_at v = (case visited of None \<Rightarrow> shd (clock w) | Some t \<Rightarrow> t) \<and>
           visits w' = visits w @ [v] \<and>
           clock w' = (case visited of None \<Rightarrow> stl (clock w) | Some t \<Rightarrow> clock w) \<and>
           customers w' = save_customer_totals
             (c\<lparr>total_spend_cents := total_spend_cents c + spend,
                last_visit_at := later (last_visit_at c) (visited_at v)\<rparr>) (customers w)"
  using assms objects_get_customer_id[OF assms(1)]
  apply (cases visited; cases "last_visit_at c")
  apply (auto simp: record_visit_def timezone_now_def later_def Let_def customer_last_visit_same)
  done

lemma record_visit_out_of_range:
  assumes "objects_get (\<lambda>r. customer_id r = pk) (customers w) = Found c"
      and "ref_pk r = pk"
      and "\<not> (bigint_ok spend \<and> bigint_ok (total_spend_cents c + spend))"
  shows "record_visit w r spend visited =
           (Inl IntegerOutOfRange,
            case visited of None \<Rightarrow> w\<lparr>clock := stl (clock w)\<rparr> | Some t \<Rightarrow> w)"
  using assms
  by (cases visited; cases "last_visit_at c")
     (auto simp: record_visit_def timezone_now_def Let_def)

lemma later_all_Some: "later_all (Some x) ts = Some (Max (insert x (set ts)))"
proof (induction ts arbitrary: x)
  case Nil
  then show ?case by simp
next
  case (Cons t ts)
  have "later (Some x) t = Some (max x t)" by (simp add: later_def max_def)
  moreover have "Max (insert (max x t) (set ts)) = Max (insert x (set (t # ts)))"
    by (cases "ts = []") (auto simp: max.commute max.left_commute)
  ultimately show ?case using Cons.IH by simp
qed

lemma later_all_None:
  "later_all None ts = (if ts = [] then None else Some (Max (set ts)))"
  by (cases ts) (simp_all add: later_def later_all_Some)

lemma save_customer_totals_same:
  assumes "List.filter (\<lambda>r. customer_id r = pk) rows = [c]"
  shows "save_customer_totals c rows = rows"
proof -
  have pk: "customer_id c = pk"
    using assms by (metis (mono_tags, lifting) filter_eq_ConsD)
  have "r = c" if "r \<in> set rows" "customer_id r = pk" for r
  proof -
    from that have "r \<in> set (List.filter (\<lambda>r. customer_id r = pk) rows)" by simp
    then show ?thesis unfolding assms by simp
  qed
  then show ?thesis
    unfolding save_customer_totals_def using pk by (intro map_idI) auto
qed

lemma objects_get_save_customer_totals:
  assumes "objects_get (\<lambda>r. customer_id r = pk) rows = Found c"
      and "customer_id c' = pk"
  shows "objects_get (\<lambda>r. customer_id r = pk) (save_customer_totals c' rows) =
         Found (c\<lparr>total_spend_cents := total_spend_cents c', last_visit_at := last_visit_at c'\<rparr>)"
  using assms objects_get_customer_id[OF assms(1)]
  by (simp add: objects_get_Found_iff filter_save_customer_totals)

lemma record_visits_Found:
  assumes "objects_get (\<lambda>r. customer_id r = pk) (customers w) = Found c"
      and "\<forall>k \<in> set ks. ref_pk (call_customer k) = pk"
      and "amounts_fit (total_spend_cents c) (map call_spend ks)"
  shows "\<exists>w'. record_visits w ks = (Inr (), w') \<and>
           map spend_cents (visits w') = map spend_cents (visits w) @ map call_spend ks \<and>
           customers w' = save_customer_totals
             (c\<lparr>total_spend_cents := total_spend_cents c + sum_list (map call_spend ks),
                last_visit_at := later_all (last_visit_at c) (occurred_at (clock w) ks)\<rparr>)
             (customers w)"
  using assms
proof (induction ks arbitrary: w c)
  case Nil
  then show ?case
    by (simp add: objects_get_Found_iff save_customer_totals_same)
next
  case (Cons k ks)
  have pk: "customer_id c = pk" using Cons.prems(1) by (rule objects_get_customer_id)
  define t where "t = (case call_visited_at k of None \<Rightarrow> shd (clock w) | Some t \<Rightarrow> t)"
  define c1 where "c1 = c\<lparr>total_spend_cents := total_spend_cents c + call_spend k,
                           last_visit_at := later (last_visit_at c) t\<rparr>"
  have fit: "bigint_ok (call_spend k)" "bigint_ok (total_spend_cents c + call_spend k)"
    "amounts_fit (total_spend_cents c + call_spend k) (map call_spend ks)"
    using Cons.prems(3) by simp_all
  from record_visit_Found[OF Cons.prems(1) _ fit(1,2), of "call_customer k" "call_visited_at k"]
    Cons.prems(2)
  obtain v w1 where step: "record_visit w (call_customer k) (call_spend k) (call_visited_at k) = (Inr v, w1)"
    and v: "spend_cents v = call_spend k" "visited_at v = t" "visits w1 = visits w @ [v]"
    and ck: "clock w1 = (case call_visited_at k of None \<Rightarrow> stl (clock w) | Some t \<Rightarrow> clock w)"
    and cs: "customers w1 = save_customer_totals c1 (customers w)"
    unfolding t_def c1_def by auto
  have c1_pk: "customer_id c1 = pk" using pk by (simp add: c1_def)
  have "objects_get (\<lambda>r. customer_id r = pk) (customers w1) = Found c1"
    using objects_get_save_customer_totals[OF Cons.prems(1) c1_pk] cs by (simp add: c1_def)
  moreover have "amounts_fit (total_spend_cents c1) (map call_spend ks)"
    using fit(3) by (simp add: c1_def)
  ultimately obtain w' where rest: "record_visits w1 ks = (Inr (), w')"
    and vs: "map spend_cents (visits w') = map spend_cents (visits w1) @ map call_spend ks"
    and cs': "customers w' = save_customer_totals
             (c1\<lparr>total_spend_cents := total_spend_cents c1 + sum_list (map call_spend ks),
                last_visit_at := later_all (last_visit_at c1) (occurred_at (clock w1) ks)\<rparr>)
             (customers w1)"
    using Cons.IH[of w1 c1] Cons.prems(2) by auto
  have occ: "occurred_at (clock w) (k # ks) = t # occurred_at (clock w1) ks"
    by (simp add: t_def ck split: option.splits)
  have "record_visits w (k # ks) = (Inr (), w')" using step rest by simp
  moreover have "map spend_cents (visits w') = map spend_cents (visits w) @ map call_spend (k # ks)"
    using vs v by simp
  moreover have "customers w' = save_customer_totals
             (c\<lparr>total_spend_cents := total_spend_cents c + sum_list (map call_spend (k # ks)),
                last_visit_at := later_all (last_visit_at c) (occurred_at (clock w) (k # ks))\<rparr>)
             (customers w)"
    unfolding cs' cs occ
    by (subst save_customer_totals_twice) (simp_all add: c1_def add.assoc)
  ultimately show ?case by blast
qed

lemma occurred_at_mset:
  "mset (occurred_at ck ks) =
     mset (List.map_filter call_visited_at ks) +
     mset (stake (length (List.filter (\<lambda>k. call_visited_at k = None) ks)) ck)"
  by (induction ks arbitrary: ck) (auto simp: List.map_filter_simps split: option.splits)

lemma occurred_at_perm:
  assumes "mset ks' = mset ks"
  shows "mset (occurred_at ck ks') = mset (occurred_at ck ks)"
proof -
  have "mset (List.map_filter call_visited_at ks') = mset (List.map_filter call_visited_at ks)"
    unfolding List.map_filter_def using assms by (metis mset_filter mset_map)
  moreover have "length (List.filter (\<lambda>k. call_visited_at k = None) ks') =
                 length (List.filter (\<lambda>k. call_visited_at k = None) ks)"
    using assms by (metis mset_filter size_mset)
  ultimately show ?thesis by (simp add: occurred_at_mset)
qed

lemma later_all_perm:
  assumes "mset ts' = mset ts"
  shows "later_all None ts' = later_all None ts"
proof -
  have "set ts' = set ts" using assms by (rule mset_eq_setD)
  moreover have "ts' = [] \<longleftrightarrow> ts = []" using assms by (metis mset_zero_iff)
  ultimately show ?thesis by (simp add: later_all_None)
qed

lemma record_visits_unfit:
  assumes "objects_get (\<lambda>r. customer_id r = pk) (customers w) = Found c"
      and "\<forall>k \<in> set ks. ref_pk (call_customer k) = pk"
      and "\<not> amounts_fit (total_spend_cents c) (map call_spend ks)"
  shows "fst (record_visits w ks) = Inl IntegerOutOfRange"
  using assms
proof (induction ks arbitrary: w c)
  case Nil
  then show ?case by simp
next
  case (Cons k ks)
  have pk: "customer_id c = pk" using Cons.prems(1) by (rule objects_get_customer_id)
  have ref: "ref_pk (call_customer k) = pk" using Cons.prems(2) by simp
  show ?case
  proof (cases "bigint_ok (call_spend k) \<and> bigint_ok (total_spend_cents c + call_spend k)")
    case True
    then have fit: "bigint_ok (call_spend k)" "bigint_ok (total_spend_cents c + call_spend k)"
      by simp_all
    define c1 where "c1 = c\<lparr>total_spend_cents := total_spend_cents c + call_spend k,
        last_visit_at := later (last_visit_at c)
          (case call_visited_at k of None \<Rightarrow> shd (clock w) | Some t \<Rightarrow> t)\<rparr>"
    from record_visit_Found[OF Cons.prems(1) ref fit, of "call_visited_at k"]
    obtain v w1 where step: "record_visit w (call_customer k) (call_spend k) (call_visited_at k) = (Inr v, w1)"
      and cs: "customers w1 = save_customer_totals c1 (customers w)"
      unfolding c1_def by auto
    have c1_pk: "customer_id c1 = pk" using pk by (simp add: c1_def)
    have "objects_get (\<lambda>r. customer_id r = pk) (customers w1) = Found c1"
      using objects_get_save_customer_totals[OF Cons.prems(1) c1_pk] cs by (simp add: c1_def)
    moreover have "\<not> amounts_fit (total_spend_cents c1) (map call_spend ks)"
      using Cons.prems(3) True by (simp add: c1_def)
    ultimately have "fst (record_visits w1 ks) = Inl IntegerOutOfRange"
      using Cons.IH[of w1 c1] Cons.prems(2) by simp
    then show ?thesis using step by simp
  next
    case False
    from record_visit_out_of_range[OF Cons.prems(1) ref False, of "call_visited_at k"]
    show ?thesis by simp
  qed
qed

text \<open>
  C1, as amended. Take a sequence of \<open>record_visit\<close> calls on one customer that
  starts with \<open>total_spend_cents = 0\<close> and \<open>last_visit_at\<close> null. When every amount
  and every running total fits the 64-bit columns, every call succeeds, the final
  \<open>total_spend_cents\<close> is the sum of the \<open>spend_cents\<close> arguments and the final
  \<open>last_visit_at\<close> is the maximum of the \<open>visited_at\<close> values, explicit or read from
  the clock (null when there was no call); and any reordering \<open>ks'\<close> of the calls
  whose amounts and running totals fit as well leaves the customer table in the same
  state. When some amount or running total does not fit, the sequence ends in the
  exception of the first call that does not fit.
\<close>

theorem record_visits_totals:
  assumes "objects_get (\<lambda>r. customer_id r = pk) (customers w) = Found c"
      and "total_spend_cents c = 0" and "last_visit_at c = None"
      and "\<forall>k \<in> set ks. ref_pk (call_customer k) = pk"
      and "mset ks' = mset ks"
  shows "(amounts_fit 0 (map call_spend ks) \<longrightarrow>
          (\<exists>w' c'. record_visits w ks = (Inr (), w') \<and>
             objects_get (\<lambda>r. customer_id r = pk) (customers w') = Found c' \<and>
             total_spend_cents c' = sum_list (map call_spend ks) \<and>
             last_visit_at c' =
               (if ks = [] then None else Some (Max (set (occurred_at (clock w) ks)))) \<and>
             (amounts_fit 0 (map call_spend ks') \<longrightarrow>
                (\<exists>w''. record_visits w ks' = (Inr (), w'') \<and> customers w'' = customers w')))) \<and>
         (\<not> amounts_fit 0 (map call_spend ks) \<longrightarrow>
            fst (record_visits w ks) = Inl IntegerOutOfRange)"
proof (intro conjI impI)
  assume fits: "amounts_fit 0 (map call_spend ks)"
  define c1 where "c1 = c\<lparr>total_spend_cents := sum_list (map call_spend ks),
       last_visit_at := later_all None (occurred_at (clock w) ks)\<rparr>"
  have pk: "customer_id c1 = pk"
    using objects_get_customer_id[OF assms(1)] by (simp add: c1_def)
  from record_visits_Found[OF assms(1,4)] assms(2,3) fits
  obtain w' where w': "record_visits w ks = (Inr (), w')"
    "customers w' = save_customer_totals c1 (customers w)"
    by (auto simp: c1_def)
  have refs': "\<forall>k \<in> set ks'. ref_pk (call_customer k) = pk"
    using assms(4,5) by (metis mset_eq_setD)
  have sums: "sum_list (map call_spend ks') = sum_list (map call_spend ks)"
    using assms(5) by (metis mset_map sum_mset_sum_list)
  have again: "\<exists>w''. record_visits w ks' = (Inr (), w'') \<and> customers w'' = customers w'"
    if fits': "amounts_fit 0 (map call_spend ks')"
  proof -
    from record_visits_Found[OF assms(1) refs'] assms(2,3) fits'
    obtain w'' where "record_visits w ks' = (Inr (), w'')"
      "customers w'' = save_customer_totals c1 (customers w)"
      by (auto simp: c1_def sums later_all_perm[OF occurred_at_perm[OF assms(5)]])
    then show ?thesis using w'(2) by simp
  qed
  have "objects_get (\<lambda>r. customer_id r = pk) (customers w') = Found c1"
    using objects_get_save_customer_totals[OF assms(1) pk] w'(2) by (simp add: c1_def)
  moreover have "total_spend_cents c1 = sum_list (map call_spend ks)" by (simp add: c1_def)
  moreover have "last_visit_at c1 =
      (if ks = [] then None else Some (Max (set (occurred_at (clock w) ks))))"
    by (cases ks) (auto simp: c1_def later_all_None split: option.splits)
  ultimately show "\<exists>w' c'. record_visits w ks = (Inr (), w') \<and>
             objects_get (\<lambda>r. customer_id r = pk) (customers w') = Found c' \<and>
             total_spend_cents c' = sum_list (map call_spend ks) \<and>
             last_visit_at c' =
               (if ks = [] then None else Some (Max (set (occurred_at (clock w) ks)))) \<and>
             (amounts_fit 0 (map call_spend ks') \<longrightarrow>
                (\<exists>w''. record_visits w ks' = (Inr (), w'') \<and> customers w'' = customers w'))"
    using w'(1) again by blast
next
  assume "\<not> amounts_fit 0 (map call_spend ks)"
  then show "fst (record_visits w ks) = Inl IntegerOutOfRange"
    using record_visits_unfit[OF assms(1,4)] assms(2) by simp
qed

text \<open>
  Two visits of the customer who never visited, 5000 cents now and 2000 cents at an
  earlier explicit time, in both orders.
\<close>

theorem record_visits_totals_witness:
  "fst (record_visits ledger_world two_visits) = Inr () \<and>
   map total_spend_cents (customers (snd (record_visits ledger_world two_visits))) = [7000, 8000] \<and>
   map last_visit_at (customers (snd (record_visits ledger_world two_visits))) =
     [Some (739923 * us_per_day), Some (739918 * us_per_day)] \<and>
   customers (snd (record_visits ledger_world (rev two_visits))) =
   customers (snd (record_visits ledger_world two_visits))"
proof -
  have h1: "objects_get (\<lambda>r. customer_id r = 1) (customers ledger_world) = Found never_visited"
    by (simp add: objects_get_def ledger_world_def never_visited_def regular_def)
  have h2: "total_spend_cents never_visited = 0" "last_visit_at never_visited = None"
    by (simp_all add: never_visited_def)
  have h3: "\<forall>k \<in> set two_visits. ref_pk (call_customer k) = 1"
    by (simp add: two_visits_def never_visited_def)
  have h4: "amounts_fit 0 (map call_spend two_visits)"
    by (simp add: two_visits_def bigint_ok_def)
  have h5: "mset (rev two_visits) = mset two_visits" by simp
  have h6: "amounts_fit 0 (map call_spend (rev two_visits))"
    by (simp add: two_visits_def bigint_ok_def)
  from record_visits_totals[OF h1 h2 h3 h5] h4 h6
  obtain w' c' w'' where r: "record_visits ledger_world two_visits = (Inr (), w')"
    "record_visits ledger_world (rev two_visits) = (Inr (), w'')" "customers w'' = customers w'"
    by blast
  have "map total_spend_cents (customers (snd (record_visits ledger_world two_visits))) = [7000, 8000]"
    by (simp add: two_visits_def ledger_world_def never_visited_def regular_def record_visit_def
        objects_get_def timezone_now_def save_customer_totals_def us_per_day_def Let_def
        bigint_ok_def)
  moreover have "map last_visit_at (customers (snd (record_visits ledger_world two_visits))) =
     [Some (739923 * us_per_day), Some (739918 * us_per_day)]"
    by (simp add: two_visits_def ledger_world_def never_visited_def regular_def record_visit_def
        objects_get_def timezone_now_def save_customer_totals_def us_per_day_def Let_def
        bigint_ok_def)
  ultimately show ?thesis using r by simp
qed

text \<open>
  C1 as stated fails: two visits of 2^62 cents each fit the column one by one, but
  their sum 2^63 does not; the second call raises and is rolled back, and the total
  stays at 2^62.
\<close>

theorem record_visits_overflow:
  "fst (record_visits ledger_world heavy_visits) = Inl IntegerOutOfRange \<and>
   map total_spend_cents (customers (snd (record_visits ledger_world heavy_visits))) =
     [4611686018427387904, 8000] \<and>
   sum_list (map call_spend heavy_visits) = 9223372036854775808"
  by (simp add: heavy_visits_def ledger_world_def never_visited_def regular_def record_visit_def
      objects_get_def timezone_now_def save_customer_totals_def us_per_day_def Let_def
      bigint_ok_def)

section \<open>The ledger has no lower bound on the amount\<close>

lemma add_visit_record_visit:
  assumes "objects_get (\<lambda>r. customer_id r = pk) (customers w) = Found c"
  shows "add_visit w pk (Some spend) visited =
     (if spend < 0
      then (Inl (ValidationError ''Ensure this value is greater than or equal to 0.''), w)
      else record_visit w (ById pk) spend visited)"
  using assms objects_get_customer_id[OF assms]
  by (simp add: add_visit_def AddVisitSerializer_def record_visit_def)

text \<open>
  C10, as amended. \<open>record_visit\<close> has no lower bound on \<open>spend_cents\<close> other than
  the range of the 64-bit columns. For every existing customer and every integer,
  negative ones included, such that the amount and the new total fit the columns, the
  call returns the new Visit, which carries that amount, and adds the amount to
  \<open>total_spend_cents\<close>, so a negative amount lowers the total. For every other
  integer the call raises and neither a Visit nor the customer is written. The check
  \<open>min_value=0\<close> is in the serializer of the \<open>add_visit\<close> endpoint only: there a
  negative amount is rejected and nothing is written, and any other amount is handed
  to \<open>record_visit\<close> as it is.
\<close>

theorem record_visit_no_lower_bound:
  assumes "objects_get (\<lambda>r. customer_id r = ref_pk r0) (customers w) = Found c"
  shows "(bigint_ok spend \<and> bigint_ok (total_spend_cents c + spend) \<longrightarrow>
          (\<exists>v w' c'. record_visit w r0 spend visited = (Inr v, w') \<and>
             spend_cents v = spend \<and> visits w' = visits w @ [v] \<and>
             objects_get (\<lambda>r. customer_id r = ref_pk r0) (customers w') = Found c' \<and>
             total_spend_cents c' = total_spend_cents c + spend \<and>
             (spend < 0 \<longrightarrow> total_spend_cents c' < total_spend_cents c))) \<and>
         (\<not> (bigint_ok spend \<and> bigint_ok (total_spend_cents c + spend)) \<longrightarrow>
            fst (record_visit w r0 spend visited) = Inl IntegerOutOfRange \<and>
            visits (snd (record_visit w r0 spend visited)) = visits w \<and>
            customers (snd (record_visit w r0 spend visited)) = customers w) \<and>
         add_visit w (ref_pk r0) (Some spend) visited =
           (if spend < 0
            then (Inl (ValidationError ''Ensure this value is greater than or equal to 0.''), w)
            else record_visit w r0 spend visited)"
proof -
  define pk where "pk = ref_pk r0"
  have found: "objects_get (\<lambda>r. customer_id r = pk) (customers w) = Found c"
    using assms by (simp add: pk_def)
  have same: "record_visit w (ById pk) spend visited = record_visit w r0 spend visited"
    by (simp add: record_visit_def pk_def)
  have inside: "\<exists>v w' c'. record_visit w r0 spend visited = (Inr v, w') \<and>
             spend_cents v = spend \<and> visits w' = visits w @ [v] \<and>
             objects_get (\<lambda>r. customer_id r = pk) (customers w') = Found c' \<and>
             total_spend_cents c' = total_spend_cents c + spend \<and>
             (spend < 0 \<longrightarrow> total_spend_cents c' < total_spend_cents c)"
    if fit: "bigint_ok spend" "bigint_ok (total_spend_cents c + spend)"
  proof -
    from record_visit_Found[OF found _ fit, of r0 visited]
    obtain v w' where step: "record_visit w r0 spend visited = (Inr v, w')"
      and v: "spend_cents v = spend" "visits w' = visits w @ [v]"
      and cs: "customers w' = save_customer_totals
               (c\<lparr>total_spend_cents := total_spend_cents c + spend,
                  last_visit_at := later (last_visit_at c) (visited_at v)\<rparr>) (customers w)"
      by (auto simp: pk_def)
    have "objects_get (\<lambda>r. customer_id r = pk) (customers w') =
            Found (c\<lparr>total_spend_cents := total_spend_cents c + spend,
                     last_visit_at := later (last_visit_at c) (visited_at v)\<rparr>)"
      unfolding cs
      using objects_get_save_customer_totals[OF found, of
          "c\<lparr>total_spend_cents := total_spend_cents c + spend,
             last_visit_at := later (last_visit_at c) (visited_at v)\<rparr>"]
        objects_get_customer_id[OF found]
      by simp
    then show ?thesis using step v by auto
  qed
  have outside: "fst (record_visit w r0 spend visited) = Inl IntegerOutOfRange \<and>
            visits (snd (record_visit w r0 spend visited)) = visits w \<and>
            customers (snd (record_visit w r0 spend visited)) = customers w"
    if "\<not> (bigint_ok spend \<and> bigint_ok (total_spend_cents c + spend))"
    using record_visit_out_of_range[OF found _ that, of r0 visited]
    by (cases visited) (simp_all add: pk_def)
  show ?thesis
    using inside outside add_visit_record_visit[OF found, of spend visited] same
    unfolding pk_def by (intro conjI impI) auto
qed

text \<open>
  A visit of minus 500 cents for the customer whose total is 8000, and one of 2^63
  cents, which the serializer lets through and the column does not hold.
\<close>

theorem record_visit_no_lower_bound_witness:
  "fst (record_visit ledger_world (ById 2) (- 500) None) =
     Inr \<lparr>visit_id = 1, visit_customer = 2, visited_at = 739923 * us_per_day, spend_cents = - 500\<rparr> \<and>
   map total_spend_cents (customers (snd (record_visit ledger_world (ById 2) (- 500) None))) =
     [0, 7500] \<and>
   fst (add_visit ledger_world 2 (Some (- 500)) None) =
     Inl (ValidationError ''Ensure this value is greater than or equal to 0.'') \<and>
   fst (add_visit ledger_world 2 (Some 9223372036854775808) None) = Inl IntegerOutOfRange \<and>
   customers (snd (add_visit ledger_world 2 (Some 9223372036854775808) None)) =
     customers ledger_world"
proof -
  have h: "objects_get (\<lambda>r. customer_id r = ref_pk (ById 2)) (customers ledger_world) = Found regular"
    by (simp add: objects_get_def ledger_world_def never_visited_def regular_def)
  have fit: "bigint_ok (- 500) \<and> bigint_ok (total_spend_cents regular + (- 500))"
    by (simp add: bigint_ok_def regular_def)
  have big: "\<not> (bigint_ok 9223372036854775808 \<and>
                 bigint_ok (total_spend_cents regular + 9223372036854775808))"
    by (simp add: bigint_ok_def)
  from record_visit_no_lower_bound[OF h, of "- 500" None]
  have "add_visit ledger_world 2 (Some (- 500)) None =
          (Inl (ValidationError ''Ensure this value is greater than or equal to 0.''), ledger_world)"
    by simp
  moreover from record_visit_no_lower_bound[OF h, of 9223372036854775808 None] big
  have "fst (add_visit ledger_world 2 (Some 9223372036854775808) None) = Inl IntegerOutOfRange"
    "customers (snd (add_visit ledger_world 2 (Some 9223372036854775808) None)) =
       customers ledger_world"
    by simp_all
  moreover have "record_visit ledger_world (ById 2) (- 500) None =
     (Inr \<lparr>visit_id = 1, visit_customer = 2, visited_at = 739923 * us_per_day, spend_cents = - 500\<rparr>,
      ledger_world\<lparr>visits := [\<lparr>visit_id = 1, visit_customer = 2, visited_at = 739923 * us_per_day,
                                  spend_cents = - 500\<rparr>],
                    next_visit_id := 2, clock := sconst (739923 * us_per_day),
                    customers := [never_visited, regular\<lparr>total_spend_cents := 7500,
                                    last_visit_at := Some (739923 * us_per_day)\<rparr>]\<rparr>)"
    by (simp add: ledger_world_def never_visited_def regular_def record_visit_def
        objects_get_def timezone_now_def save_customer_totals_def us_per_day_def Let_def
        bigint_ok_def)
  ultimately show ?thesis using fit by (simp add: never_visited_def regular_def)
qed

text \<open>
  C10 as stated fails: a visit of minus 2^63 minus 1 cents is an integer amount for an
  existing customer, and the call raises instead of lowering the total.
\<close>

theorem record_visit_below_range:
  "fst (record_visit ledger_world (ById 2) (- 9223372036854775809) None) = Inl IntegerOutOfRange \<and>
   map total_spend_cents
     (customers (snd (record_visit ledger_world (ById 2) (- 9223372036854775809) None))) =
     [0, 8000] \<and>
   visits (snd (record_visit ledger_world (ById 2) (- 9223372036854775809) None)) = []"
  by (simp add: ledger_world_def never_visited_def regular_def record_visit_def
      objects_get_def timezone_now_def bigint_ok_def)

section \<open>Segmentation\<close>

lemma inactive_days_in_range:
  assumes "\<bar>days\<bar> \<le> 999999999"
      and "datetime_ok (shd (clock w) - days * us_per_day)"
  shows "inactive_days w queryset days =
           (Inr (List.filter (\<lambda>c. case last_visit_at c of None \<Rightarrow> True
                                   | Some t \<Rightarrow> t < shd (clock w) - days * us_per_day) queryset),
            w\<lparr>clock := stl (clock w)\<rparr>)"
  using assms
  by (simp add: inactive_days_def timezone_now_def timedelta_days_def datetime_sub_def)

lemma inactive_days_out_of_range:
  assumes "\<not> (\<bar>days\<bar> \<le> 999999999 \<and> datetime_ok (shd (clock w) - days * us_per_day))"
  shows "\<exists>m. inactive_days w queryset days = (Inl (OverflowError m), w\<lparr>clock := stl (clock w)\<rparr>)"
  using assms
  by (auto simp: inactive_days_def timezone_now_def timedelta_days_def datetime_sub_def)

text \<open>
  C7, as amended. Whenever the magnitude of \<open>days\<close> is at most 999999999 and now minus
  \<open>days\<close> is a representable datetime, \<open>inactive_days\<close> returns, and it selects a
  customer if and only if \<open>last_visit_at\<close> is null or strictly earlier than now minus
  \<open>days\<close>; for every other value of \<open>days\<close> it raises \<open>OverflowError\<close> and
  returns no selection. \<open>high_spenders\<close> selects a customer if and only if
  \<open>total_spend_cents\<close> is at least the minimum, for every minimum.
\<close>

theorem segmentation_selects:
  "(\<bar>days\<bar> \<le> 999999999 \<and> datetime_ok (shd (clock w) - days * us_per_day) \<longrightarrow>
      (\<exists>selected. fst (inactive_days w queryset days) = Inr selected \<and>
         (\<forall>c. c \<in> set selected \<longleftrightarrow>
                c \<in> set queryset \<and>
                (last_visit_at c = None \<or>
                 (\<exists>t. last_visit_at c = Some t \<and> t < shd (clock w) - days * us_per_day))))) \<and>
   (\<not> (\<bar>days\<bar> \<le> 999999999 \<and> datetime_ok (shd (clock w) - days * us_per_day)) \<longrightarrow>
      (\<exists>m. fst (inactive_days w queryset days) = Inl (OverflowError m))) \<and>
   (\<forall>c. c \<in> set (high_spenders queryset min_cents) \<longleftrightarrow>
          c \<in> set queryset \<and> total_spend_cents c \<ge> min_cents)"
proof (intro conjI impI)
  assume "\<bar>days\<bar> \<le> 999999999 \<and> datetime_ok (shd (clock w) - days * us_per_day)"
  then have "inactive_days w queryset days =
           (Inr (List.filter (\<lambda>c. case last_visit_at c of None \<Rightarrow> True
                                   | Some t \<Rightarrow> t < shd (clock w) - days * us_per_day) queryset),
            w\<lparr>clock := stl (clock w)\<rparr>)"
    by (intro inactive_days_in_range) simp_all
  then show "\<exists>selected. fst (inactive_days w queryset days) = Inr selected \<and>
         (\<forall>c. c \<in> set selected \<longleftrightarrow>
                c \<in> set queryset \<and>
                (last_visit_at c = None \<or>
                 (\<exists>t. last_visit_at c = Some t \<and> t < shd (clock w) - days * us_per_day)))"
    by (auto split: option.splits)
next
  assume "\<not> (\<bar>days\<bar> \<le> 999999999 \<and> datetime_ok (shd (clock w) - days * us_per_day))"
  from inactive_days_out_of_range[OF this, of queryset]
  show "\<exists>m. fst (inactive_days w queryset days) = Inl (OverflowError m)" by auto
next
  show "\<forall>c. c \<in> set (high_spenders queryset min_cents) \<longleftrightarrow>
          c \<in> set queryset \<and> total_spend_cents c \<ge> min_cents"
    by (auto simp: high_spenders_def)
qed

text \<open>
  The two example customers: a cutoff before year 1, cutoffs of 3 and 30 days, and the
  spend boundary at 8000 and 8001 cents for a total of exactly 8000.
\<close>

theorem segmentation_selects_witness:
  "fst (inactive_days ledger_world (customers ledger_world) 1000000) =
     Inl (OverflowError ''date value out of range'') \<and>
   fst (inactive_days ledger_world (customers ledger_world) 3) = Inr [never_visited, regular] \<and>
   fst (inactive_days ledger_world (customers ledger_world) 30) = Inr [never_visited] \<and>
   high_spenders (customers ledger_world) 8000 = [regular] \<and>
   high_spenders (customers ledger_world) 8001 = []"
proof -
  have a: "\<bar>30::int\<bar> \<le> 999999999" by simp
  have b: "datetime_ok (shd (clock ledger_world) - 30 * us_per_day)"
    by (simp add: ledger_world_def datetime_ok_def us_per_day_def)
  from segmentation_selects[of 30 ledger_world "customers ledger_world" 8000] a b
  obtain selected where sel: "fst (inactive_days ledger_world (customers ledger_world) 30) = Inr selected"
    by blast
  have c: "\<not> (\<bar>1000000::int\<bar> \<le> 999999999 \<and>
               datetime_ok (shd (clock ledger_world) - 1000000 * us_per_day))"
    by (simp add: ledger_world_def datetime_ok_def us_per_day_def)
  from segmentation_selects[of 1000000 ledger_world "customers ledger_world" 8000] c
  obtain m where ovf: "fst (inactive_days ledger_world (customers ledger_world) 1000000) =
                         Inl (OverflowError m)"
    by blast
  have "fst (inactive_days ledger_world (customers ledger_world) 30) = Inr [never_visited]"
    by (simp add: inactive_days_def timezone_now_def timedelta_days_def datetime_sub_def
        datetime_ok_def ledger_world_def never_visited_def regular_def us_per_day_def)
  moreover have "fst (inactive_days ledger_world (customers ledger_world) 3) =
                   Inr [never_visited, regular]"
    by (simp add: inactive_days_def timezone_now_def timedelta_days_def datetime_sub_def
        datetime_ok_def ledger_world_def never_visited_def regular_def us_per_day_def)
  moreover have "high_spenders (customers ledger_world) 8000 = [regular]"
                "high_spenders (customers ledger_world) 8001 = []"
    by (simp_all add: high_spenders_def ledger_world_def never_visited_def regular_def)
  moreover have "fst (inactive_days ledger_world (customers ledger_world) 1000000) =
                   Inl (OverflowError ''date value out of range'')"
    by (simp add: inactive_days_def timezone_now_def timedelta_days_def datetime_sub_def
        datetime_ok_def ledger_world_def us_per_day_def)
  ultimately show ?thesis using sel ovf by simp
qed

text \<open>
  C7 as stated fails: with \<open>days = 1000000000\<close> the timedelta cannot be built, with
  \<open>days = 1000000\<close> the cutoff lies before year 1; both calls raise, and the customer
  who never visited is not selected.
\<close>

theorem inactive_days_overflow:
  "fst (inactive_days ledger_world [never_visited] 1000000000) =
     Inl (OverflowError ''days=1000000000; must have magnitude <= 999999999'') \<and>
   fst (inactive_days ledger_world [never_visited] 1000000) =
     Inl (OverflowError ''date value out of range'')"
proof -
  have "str_int 1000000000 = ''1000000000''"
    by (simp add: str_int_def str_digits.simps digit_char_def)
  then show ?thesis
    by (simp add: inactive_days_def timezone_now_def timedelta_days_def datetime_sub_def
        datetime_ok_def ledger_world_def us_per_day_def)
qed

section \<open>The pipeline, one customer at a time\<close>

lemma length_card_keys:
  "distinct (map f xs) \<Longrightarrow> length xs = card (f ` set xs)"
  by (metis distinct_card length_map set_map)

lemma get_or_create_member:
  "get_or_create w campaign customer = (Inr (e, created), w1) \<Longrightarrow> e \<in> set (outreach_events w1)"
proof -
  assume g: "get_or_create w campaign customer = (Inr (e, created), w1)"
  let ?P = "\<lambda>e. event_campaign e = campaign_id campaign \<and> event_customer e = customer_id customer"
  show ?thesis
  proof (cases "objects_get ?P (outreach_events w)")
    case DoesNotExist
    then show ?thesis using g by (auto simp: get_or_create_def Let_def)
  next
    case (Found x)
    then have "List.filter ?P (outreach_events w) = [x]" by (simp add: objects_get_Found_iff)
    then have "x \<in> set (List.filter ?P (outreach_events w))" by simp
    then show ?thesis using g Found by (auto simp: get_or_create_def)
  next
    case Multiple
    then show ?thesis using g by (simp add: get_or_create_def)
  qed
qed

lemma filter_key_le_one:
  "distinct (map f xs) \<Longrightarrow> length (List.filter (\<lambda>x. f x = k) xs) \<le> 1"
proof (induction xs)
  case Nil
  then show ?case by simp
next
  case (Cons x xs)
  show ?case
  proof (cases "f x = k")
    case True
    from Cons.prems have "f x \<notin> f ` set xs" by simp
    with True have "\<forall>y \<in> set xs. f y \<noteq> k" by (metis imageI)
    then have "List.filter (\<lambda>x. f x = k) xs = []" by (simp add: filter_empty_conv)
    with True show ?thesis by simp
  next
    case False
    with Cons show ?thesis by simp
  qed
qed

lemma filter_key_cases:
  assumes "distinct (map f xs)"
  obtains "List.filter (\<lambda>x. f x = k) xs = []" | x where "List.filter (\<lambda>x. f x = k) xs = [x]"
proof -
  have "length (List.filter (\<lambda>x. f x = k) xs) \<le> 1"
    using assms by (rule filter_key_le_one)
  then have "List.filter (\<lambda>x. f x = k) xs = [] \<or> (\<exists>x. List.filter (\<lambda>x. f x = k) xs = [x])"
    by (cases "List.filter (\<lambda>x. f x = k) xs") auto
  then show ?thesis using that by blast
qed

lemma get_or_create_cases:
  assumes "unique_together w"
  shows "\<exists>e created w1. get_or_create w campaign customer = (Inr (e, created), w1) \<and>
           e \<in> set (outreach_events w1) \<and>
           event_key e = (campaign_id campaign, customer_id customer) \<and>
           (if created
            then (campaign_id campaign, customer_id customer) \<notin> set (map event_key (outreach_events w)) \<and>
                 event_id e = next_event_id w \<and> event_status e = ''queued'' \<and>
                 e = queued_event (next_event_id w) (campaign_id campaign) (customer_id customer) \<and>
                 w1 = w\<lparr>outreach_events := outreach_events w @ [e],
                        next_event_id := next_event_id w + 1\<rparr>
            else w1 = w)"
proof -
  let ?K = "(campaign_id campaign, customer_id customer)"
  have pred: "(\<lambda>e. event_campaign e = campaign_id campaign \<and> event_customer e = customer_id customer)
              = (\<lambda>e. event_key e = ?K)"
    by (auto simp: event_key_def)
  have "distinct (map event_key (outreach_events w))"
    using assms by (simp add: unique_together_def)
  then show ?thesis
  proof (cases rule: filter_key_cases[where k = ?K])
    case 1
    then have "?K \<notin> set (map event_key (outreach_events w))"
      by (auto simp: filter_empty_conv)
    moreover have "event_key \<lparr>event_id = next_event_id w, event_campaign = campaign_id campaign,
                    event_customer = customer_id customer, channel = ''email'',
                    event_status = ''queued'', error_message = None, sent_at = None\<rparr> = ?K"
      by (simp add: event_key_def)
    ultimately show ?thesis using 1
      by (auto simp: get_or_create_def objects_get_def pred Let_def queued_event_def)
  next
    case (2 x)
    then have "x \<in> set (List.filter (\<lambda>e. event_key e = ?K) (outreach_events w))" by simp
    then have "x \<in> set (outreach_events w)" "event_key x = ?K" by simp_all
    with 2 show ?thesis
      by (auto simp: get_or_create_def objects_get_def pred)
  qed
qed


lemma same_but_save_event_outcome:
  "list_all2 (same_but (event_id ev)) rows (save_event_outcome ev rows)"
  by (simp add: save_event_outcome_def list_all2_map2 list_all2_same same_but_def event_key_def)

lemma same_but_save_event_failure:
  "list_all2 (same_but (event_id ev)) rows (save_event_failure ev rows)"
  by (simp add: save_event_failure_def list_all2_map2 list_all2_same same_but_def event_key_def)

lemma same_but_refl: "list_all2 (same_but i) rows rows"
  by (simp add: list_all2_same same_but_def)

lemma process_customer_effect:
  assumes "get_or_create w campaign customer = (Inr (e, created), w1)"
  shows "\<exists>w' n'. process_customer format campaign customer (w, n) = (None, w', n') \<and>
           list_all2 (same_but (event_id e)) (outreach_events w1) (outreach_events w') \<and>
           customers w' = customers w1 \<and> campaigns w' = campaigns w1 \<and>
           visits w' = visits w1 \<and> next_event_id w' = next_event_id w1 \<and>
           next_visit_id w' = next_visit_id w1 \<and>
           (terminal e \<longrightarrow> w' = w1 \<and> n' = n) \<and>
           (\<not> terminal e \<longrightarrow> total_processed n' = total_processed n + 1)"
proof (cases "terminal e")
  case True
  then show ?thesis using assms by (simp add: terminal_def same_but_refl)
next
  case False
  then have nt: "event_status e \<noteq> ''sent''" "event_status e \<noteq> ''skipped''"
    by (simp_all add: terminal_def)
  show ?thesis
  proof (cases "format (message_template campaign) (first_name customer)")
    case (Inl msg)
    have "list_all2 (same_but (event_id e)) (outreach_events w1)
            (save_event_failure (e\<lparr>event_status := ''failed'', error_message := Some msg\<rparr>)
               (outreach_events w1))"
      using same_but_save_event_failure[of "e\<lparr>event_status := ''failed'', error_message := Some msg\<rparr>"]
      by simp
    then show ?thesis using assms nt False Inl by (simp add: Let_def)
  next
    case (Inr message)
    have sent: "list_all2 (same_but (event_id e)) (outreach_events w1)
            (save_event_outcome (e\<lparr>event_status := ''sent'', sent_at := Some t,
                                   error_message := None\<rparr>) (outreach_events w1))" for t
      using same_but_save_event_outcome[of "e\<lparr>event_status := ''sent'', sent_at := Some t,
                                   error_message := None\<rparr>"]
      by simp
    have failed: "list_all2 (same_but (event_id e)) (outreach_events w1)
            (save_event_outcome (e\<lparr>event_status := ''failed'',
                error_message := Some ''Simulated email delivery failure''\<rparr>) (outreach_events w1))"
      using same_but_save_event_outcome[of "e\<lparr>event_status := ''failed'',
                error_message := Some ''Simulated email delivery failure''\<rparr>"]
      by simp
    show ?thesis using assms nt False Inr sent failed
      by (simp add: Let_def random_random_def timezone_now_def)
  qed
qed

lemma in_save_event_failure:
  "e \<in> set rows \<Longrightarrow> event_id ev = event_id e \<Longrightarrow>
   e\<lparr>event_status := event_status ev, error_message := error_message ev\<rparr> \<in>
     set (save_event_failure ev rows)"
  by (force simp: save_event_failure_def)

lemma in_save_event_outcome:
  "e \<in> set rows \<Longrightarrow> event_id ev = event_id e \<Longrightarrow>
   e\<lparr>event_status := event_status ev, sent_at := sent_at ev,
      error_message := error_message ev\<rparr> \<in> set (save_event_outcome ev rows)"
  by (force simp: save_event_outcome_def)

lemma attempted_same_row:
  "attempted format campaign customer e e' \<Longrightarrow>
   event_key e' = event_key e \<and> event_id e' = event_id e"
  by (auto simp: attempted_def event_key_def split: sum.splits)

lemma process_customer_attempt:
  assumes g: "get_or_create w campaign customer = (Inr (e, created), w1)"
      and nt: "\<not> terminal e"
      and p: "process_customer format campaign customer (w, n) = (r, w', n')"
  shows "(\<exists>e' \<in> set (outreach_events w'). attempted format campaign customer e e') \<and>
         total_failed n' \<ge>
           total_failed n + (if render_fails format campaign customer then 1 else 0)"
proof -
  have st: "event_status e \<noteq> ''sent''" "event_status e \<noteq> ''skipped''"
    using nt by (simp_all add: terminal_def)
  have e_in: "e \<in> set (outreach_events w1)" using g by (rule get_or_create_member)
  show ?thesis
  proof (cases "format (message_template campaign) (first_name customer)")
    case (Inl msg)
    let ?e' = "e\<lparr>event_status := ''failed'', error_message := Some msg\<rparr>"
    have "?e' \<in> set (save_event_failure ?e' (outreach_events w1))"
      using in_save_event_failure[OF e_in, of ?e'] by simp
    moreover have "attempted format campaign customer e ?e'"
      using Inl by (simp add: attempted_def)
    moreover have "outreach_events w' = save_event_failure ?e' (outreach_events w1)"
      and "total_failed n' = total_failed n + 1"
      using p g st Inl by (auto simp: Let_def)
    ultimately show ?thesis using Inl by (auto simp: render_fails_def)
  next
    case (Inr message)
    have nf: "\<not> render_fails format campaign customer" using Inr by (simp add: render_fails_def)
    show ?thesis
    proof (cases "shd (rng w1) < 9 / 10")
      case True
      let ?e' = "e\<lparr>event_status := ''sent'', sent_at := Some (shd (clock w1)),
                     error_message := None\<rparr>"
      have "?e' \<in> set (save_event_outcome ?e' (outreach_events w1))"
        using in_save_event_outcome[OF e_in, of ?e'] by simp
      moreover have "attempted format campaign customer e ?e'"
        using Inr by (simp add: attempted_def)
      moreover have "outreach_events w' = save_event_outcome ?e' (outreach_events w1)"
        and "total_failed n' = total_failed n"
        using p g st Inr True by (auto simp: Let_def random_random_def timezone_now_def)
      ultimately show ?thesis using nf by auto
    next
      case False
      let ?e' = "e\<lparr>event_status := ''failed'',
                     error_message := Some ''Simulated email delivery failure''\<rparr>"
      have "?e' \<in> set (save_event_outcome ?e' (outreach_events w1))"
        using in_save_event_outcome[OF e_in, of ?e'] by simp
      moreover have "attempted format campaign customer e ?e'"
        using Inr by (simp add: attempted_def)
      moreover have "outreach_events w' = save_event_outcome ?e' (outreach_events w1)"
        and "total_failed n' = total_failed n + 1"
        using p g st Inr False by (auto simp: Let_def random_random_def timezone_now_def)
      ultimately show ?thesis using nf by auto
    qed
  qed
qed

lemma same_but_maps:
  assumes "list_all2 (same_but i) xs ys"
  shows "map event_key ys = map event_key xs" and "map event_id ys = map event_id xs"
  using assms by (induction rule: list_all2_induct) (simp_all add: same_but_def)

lemma same_but_keeps:
  assumes "list_all2 (same_but i) xs ys" and "r \<in> set xs" and "event_id r \<noteq> i"
  shows "r \<in> set ys"
  using assms by (induction rule: list_all2_induct) (auto simp: same_but_def)

lemma same_but_origin:
  assumes "list_all2 (same_but i) xs ys" and "r' \<in> set ys"
  shows "\<exists>r \<in> set xs. same_but i r r'"
  using assms by (induction rule: list_all2_induct) auto

lemma distinct_map_eq:
  assumes "distinct (map f xs)" and "x \<in> set xs" and "y \<in> set xs" and "f x = f y"
  shows "x = y"
  using assms by (meson distinct_map inj_onD)

lemma run_relD:
  assumes "run_rel format campaign C s s'"
  shows "unique_together (fst s')" and "primary_keys (fst s')"
    and "set (map event_key (outreach_events (fst s'))) =
         set (map event_key (outreach_events (fst s))) \<union>
         Pair (campaign_id campaign) ` customer_id ` C"
    and "\<And>r. r \<in> set (outreach_events (fst s)) \<Longrightarrow>
               event_key r \<notin> Pair (campaign_id campaign) ` customer_id ` C \<or> terminal r \<Longrightarrow>
               r \<in> set (outreach_events (fst s'))"
    and "\<And>r. r \<in> set (outreach_events (fst s')) \<Longrightarrow>
               event_key r \<notin> Pair (campaign_id campaign) ` customer_id ` C \<Longrightarrow>
               r \<in> set (outreach_events (fst s))"
    and "customers (fst s') = customers (fst s)" and "visits (fst s') = visits (fst s)"
    and "total_processed (snd s') =
         total_processed (snd s) +
         card {cu \<in> C. \<not> settled (fst s) (campaign_id campaign) (customer_id cu)}"
    and "total_failed (snd s') \<ge>
         total_failed (snd s) +
         card {cu \<in> C. \<not> settled (fst s) (campaign_id campaign) (customer_id cu) \<and>
                        render_fails format campaign cu}"
    and "\<And>cu e. cu \<in> C \<Longrightarrow> e \<in> set (outreach_events (fst s)) \<Longrightarrow>
               event_key e = (campaign_id campaign, customer_id cu) \<Longrightarrow> \<not> terminal e \<Longrightarrow>
               \<exists>e' \<in> set (outreach_events (fst s')). attempted format campaign cu e e'"
    and "\<And>cu. cu \<in> C \<Longrightarrow>
               (campaign_id campaign, customer_id cu) \<notin> set (map event_key (outreach_events (fst s))) \<Longrightarrow>
               \<exists>e' \<in> set (outreach_events (fst s')).
                  attempted format campaign cu
                    (queued_event (event_id e') (campaign_id campaign) (customer_id cu)) e'"
  using assms unfolding run_rel_def by blast+

lemma run_relI:
  assumes "unique_together (fst s')" and "primary_keys (fst s')"
    and "set (map event_key (outreach_events (fst s'))) =
         set (map event_key (outreach_events (fst s))) \<union>
         Pair (campaign_id campaign) ` customer_id ` C"
    and "\<And>r. r \<in> set (outreach_events (fst s)) \<Longrightarrow>
               event_key r \<notin> Pair (campaign_id campaign) ` customer_id ` C \<or> terminal r \<Longrightarrow>
               r \<in> set (outreach_events (fst s'))"
    and "\<And>r. r \<in> set (outreach_events (fst s')) \<Longrightarrow>
               event_key r \<notin> Pair (campaign_id campaign) ` customer_id ` C \<Longrightarrow>
               r \<in> set (outreach_events (fst s))"
    and "customers (fst s') = customers (fst s)" and "visits (fst s') = visits (fst s)"
    and "total_processed (snd s') =
         total_processed (snd s) +
         card {cu \<in> C. \<not> settled (fst s) (campaign_id campaign) (customer_id cu)}"
    and "total_failed (snd s') \<ge>
         total_failed (snd s) +
         card {cu \<in> C. \<not> settled (fst s) (campaign_id campaign) (customer_id cu) \<and>
                        render_fails format campaign cu}"
    and "\<And>cu e. cu \<in> C \<Longrightarrow> e \<in> set (outreach_events (fst s)) \<Longrightarrow>
               event_key e = (campaign_id campaign, customer_id cu) \<Longrightarrow> \<not> terminal e \<Longrightarrow>
               \<exists>e' \<in> set (outreach_events (fst s')). attempted format campaign cu e e'"
    and "\<And>cu. cu \<in> C \<Longrightarrow>
               (campaign_id campaign, customer_id cu) \<notin> set (map event_key (outreach_events (fst s))) \<Longrightarrow>
               \<exists>e' \<in> set (outreach_events (fst s')).
                  attempted format campaign cu
                    (queued_event (event_id e') (campaign_id campaign) (customer_id cu)) e'"
  shows "run_rel format campaign C s s'"
  unfolding run_rel_def using assms by blast

lemma queued_event_sel [simp]:
  "event_id (queued_event i c k) = i"
  "event_status (queued_event i c k) = ''queued''"
  "event_key (queued_event i c k) = (c, k)"
  by (simp_all add: queued_event_def event_key_def)

lemma process_customer_rel:
  assumes ut: "unique_together w" and pk: "primary_keys w"
  shows "\<exists>s'. process_customer format campaign customer (w, n) = (None, s') \<and>
           campaigns (fst s') = campaigns w \<and>
           run_rel format campaign {customer} (w, n) s'"
proof -
  let ?K = "(campaign_id campaign, customer_id customer)"
  from get_or_create_cases[OF ut, of campaign customer]
  obtain e created w1 where g: "get_or_create w campaign customer = (Inr (e, created), w1)"
    and e_in: "e \<in> set (outreach_events w1)" and e_key: "event_key e = ?K"
    and both: "if created
            then ?K \<notin> set (map event_key (outreach_events w)) \<and>
                 event_id e = next_event_id w \<and> event_status e = ''queued'' \<and>
                 e = queued_event (next_event_id w) (campaign_id campaign) (customer_id customer) \<and>
                 w1 = w\<lparr>outreach_events := outreach_events w @ [e],
                        next_event_id := next_event_id w + 1\<rparr>
            else w1 = w"
    by blast
  have cr: "?K \<notin> set (map event_key (outreach_events w)) \<and>
               event_id e = next_event_id w \<and> event_status e = ''queued'' \<and>
               e = queued_event (next_event_id w) (campaign_id campaign) (customer_id customer) \<and>
               w1 = w\<lparr>outreach_events := outreach_events w @ [e],
                      next_event_id := next_event_id w + 1\<rparr>" if created
    using both that by (simp add: queued_event_def)
  have ncr: "w1 = w" if "\<not> created"
    using both that by simp
  from process_customer_effect[OF g, of format n]
  obtain w' n' where p: "process_customer format campaign customer (w, n) = (None, w', n')"
    and sb: "list_all2 (same_but (event_id e)) (outreach_events w1) (outreach_events w')"
    and fr: "customers w' = customers w1" "campaigns w' = campaigns w1" "visits w' = visits w1"
            "next_event_id w' = next_event_id w1"
    and tm: "terminal e \<Longrightarrow> w' = w1 \<and> n' = n"
    and ntm: "\<not> terminal e \<Longrightarrow> total_processed n' = total_processed n + 1"
    by blast
  have att: "(\<exists>e' \<in> set (outreach_events w'). attempted format campaign customer e e') \<and>
         total_failed n' \<ge>
           total_failed n + (if render_fails format campaign customer then 1 else 0)"
    if "\<not> terminal e"
    using process_customer_attempt[OF g that p] .
  have rows1: "outreach_events w1 = (if created then outreach_events w @ [e] else outreach_events w)"
    using cr ncr by (cases created) auto
  have fr1: "customers w1 = customers w" "campaigns w1 = campaigns w" "visits w1 = visits w"
    using cr ncr by (cases created; auto)+
  have keys1: "distinct (map event_key (outreach_events w1))"
    using ut cr ncr e_key by (cases created) (auto simp: unique_together_def)
  have ids1: "distinct (map event_id (outreach_events w1))"
    and below1: "\<forall>r \<in> set (outreach_events w1). event_id r < next_event_id w1"
    using pk cr ncr by (cases created; fastforce simp: primary_keys_def)+
  have keys': "map event_key (outreach_events w') = map event_key (outreach_events w1)"
    and ids': "map event_id (outreach_events w') = map event_id (outreach_events w1)"
    using same_but_maps[OF sb] by simp_all
  have U: "unique_together w'" using keys1 keys' by (simp add: unique_together_def)
  have "\<forall>r \<in> set (outreach_events w'). event_id r < next_event_id w'"
  proof
    fix r assume "r \<in> set (outreach_events w')"
    then have "event_id r \<in> set (map event_id (outreach_events w1))"
      using ids' by (metis image_eqI list.set_map)
    then show "event_id r < next_event_id w'" using below1 fr(4) by auto
  qed
  then have P: "primary_keys w'"
    using ids1 ids' pk fr(1) fr1(1) by (simp add: primary_keys_def)
  have keyset: "set (map event_key (outreach_events w')) =
                set (map event_key (outreach_events w)) \<union>
                Pair (campaign_id campaign) ` customer_id ` {customer}"
  proof (cases created)
    case True
    then show ?thesis using keys' rows1 e_key by auto
  next
    case False
    then have "e \<in> set (outreach_events w)" using e_in ncr by simp
    then have "?K \<in> set (map event_key (outreach_events w))" using e_key by force
    then show ?thesis using keys' rows1 False by auto
  qed
  have only_e: "r = e" if "r \<in> set (outreach_events w1)" "event_id r = event_id e" for r
    using distinct_map_eq[OF ids1 that(1) e_in that(2)] .
  have fwd: "r \<in> set (outreach_events w')"
    if "r \<in> set (outreach_events w)" "event_key r \<noteq> ?K \<or> terminal r" for r
  proof -
    have r1: "r \<in> set (outreach_events w1)" using that(1) rows1 by auto
    show ?thesis
    proof (cases "event_id r = event_id e")
      case True
      then have "r = e" using only_e r1 by blast
      with that(2) e_key have "terminal e" by auto
      then show ?thesis using tm r1 by auto
    next
      case False
      then show ?thesis using same_but_keeps[OF sb r1] by simp
    qed
  qed
  have bwd: "r' \<in> set (outreach_events w)"
    if "r' \<in> set (outreach_events w')" "event_key r' \<noteq> ?K" for r'
  proof -
    from same_but_origin[OF sb that(1)]
    obtain r where r: "r \<in> set (outreach_events w1)" "same_but (event_id e) r r'" by blast
    then have k: "event_key r \<noteq> ?K" using that(2) by (simp add: same_but_def)
    then have "r \<noteq> e" using e_key by auto
    then have "event_id r \<noteq> event_id e" using only_e r(1) by blast
    then have "r' = r" using r(2) by (simp add: same_but_def)
    moreover have "r \<in> set (outreach_events w)"
      using r(1) rows1 \<open>r \<noteq> e\<close> by (cases created) auto
    ultimately show ?thesis by simp
  qed
  have settled_iff: "settled w (campaign_id campaign) (customer_id customer) \<longleftrightarrow> terminal e"
  proof
    assume "settled w (campaign_id campaign) (customer_id customer)"
    then obtain r where r: "r \<in> set (outreach_events w)" "event_key r = ?K" "terminal r"
      by (auto simp: settled_def)
    then have "r \<in> set (outreach_events w1)" using rows1 by auto
    then have "r = e" using distinct_map_eq[OF keys1 _ e_in] r(2) e_key by simp
    then show "terminal e" using r(3) by simp
  next
    assume t: "terminal e"
    then have "\<not> created" using cr by (auto simp: terminal_def)
    then have "e \<in> set (outreach_events w)" using e_in ncr by simp
    then show "settled w (campaign_id campaign) (customer_id customer)"
      using e_key t by (auto simp: settled_def)
  qed
  have count: "total_processed n' =
      total_processed n +
      card {cu \<in> {customer}. \<not> settled w (campaign_id campaign) (customer_id cu)}"
  proof (cases "terminal e")
    case True
    then have "{cu \<in> {customer}. \<not> settled w (campaign_id campaign) (customer_id cu)} = {}"
      using settled_iff by auto
    then show ?thesis using tm True by simp
  next
    case False
    then have "{cu \<in> {customer}. \<not> settled w (campaign_id campaign) (customer_id cu)} = {customer}"
      using settled_iff by auto
    then show ?thesis using ntm False by simp
  qed
  have failed: "total_failed n' \<ge>
      total_failed n +
      card {cu \<in> {customer}. \<not> settled w (campaign_id campaign) (customer_id cu) \<and>
                             render_fails format campaign cu}"
  proof (cases "terminal e")
    case True
    then have "{cu \<in> {customer}. \<not> settled w (campaign_id campaign) (customer_id cu) \<and>
                             render_fails format campaign cu} = {}"
      using settled_iff by auto
    then show ?thesis using tm True by simp
  next
    case False
    have "card {cu \<in> {customer}. \<not> settled w (campaign_id campaign) (customer_id cu) \<and>
                             render_fails format campaign cu} \<le>
          (if render_fails format campaign customer then 1 else 0)"
    proof (cases "render_fails format campaign customer")
      case True
      have "{cu \<in> {customer}. \<not> settled w (campaign_id campaign) (customer_id cu) \<and>
                             render_fails format campaign cu} \<subseteq> {customer}"
        by auto
      then have "card {cu \<in> {customer}. \<not> settled w (campaign_id campaign) (customer_id cu) \<and>
                             render_fails format campaign cu} \<le> card {customer}"
        by (rule card_mono[rotated]) simp
      then show ?thesis using True by simp
    next
      case nf: False
      then have "{cu \<in> {customer}. \<not> settled w (campaign_id campaign) (customer_id cu) \<and>
                             render_fails format campaign cu} = {}"
        by auto
      then show ?thesis by (simp only: card.empty)
    qed
    moreover have "total_failed n' \<ge>
           total_failed n + (if render_fails format campaign customer then 1 else 0)"
      using att[OF False] by blast
    ultimately show ?thesis by linarith
  qed
  have old: "\<exists>e' \<in> set (outreach_events w'). attempted format campaign cu e0 e'"
    if "cu \<in> {customer}" "e0 \<in> set (outreach_events w)"
       "event_key e0 = (campaign_id campaign, customer_id cu)" "\<not> terminal e0" for cu e0
  proof -
    have "e0 \<in> set (outreach_events w1)" using that(2) rows1 by auto
    then have "e0 = e" using distinct_map_eq[OF keys1 _ e_in] that(1,3) e_key by simp
    then show ?thesis using att that(1,4) by auto
  qed
  have new: "\<exists>e' \<in> set (outreach_events w').
                  attempted format campaign cu
                    (queued_event (event_id e') (campaign_id campaign) (customer_id cu)) e'"
    if "cu \<in> {customer}"
       "(campaign_id campaign, customer_id cu) \<notin> set (map event_key (outreach_events w))" for cu
  proof -
    have c: created
    proof (rule ccontr)
      assume "\<not> created"
      then have "e \<in> set (outreach_events w)" using e_in ncr by simp
      then have "?K \<in> set (map event_key (outreach_events w))" using e_key by force
      then show False using that by simp
    qed
    then have q: "e = queued_event (next_event_id w) (campaign_id campaign) (customer_id customer)"
      and "event_status e = ''queued''"
      using cr by blast+
    then have "\<not> terminal e" by (simp add: terminal_def)
    from att[OF this] obtain e' where e': "e' \<in> set (outreach_events w')"
      "attempted format campaign customer e e'" by blast
    have "event_id e' = next_event_id w"
      using attempted_same_row[OF e'(2)] q by simp
    then have "attempted format campaign cu
                 (queued_event (event_id e') (campaign_id campaign) (customer_id cu)) e'"
      using e'(2) q that(1) by simp
    then show ?thesis using e'(1) by blast
  qed
  have "run_rel format campaign {customer} (w, n) (w', n')"
    by (rule run_relI) (use U P keyset fwd bwd fr fr1 count failed old new in \<open>simp_all\<close>)
  then show ?thesis using p fr(2) fr1(2) by auto
qed
section \<open>The pipeline, batch by batch\<close>

lemma run_rel_empty:
  "unique_together w \<Longrightarrow> primary_keys w \<Longrightarrow> run_rel format campaign {} (w, n) (w, n)"
  by (simp add: run_rel_def)

lemma run_rel_settled:
  assumes "run_rel format campaign C s s1" and "k \<notin> customer_id ` C"
  shows "settled (fst s1) (campaign_id campaign) k \<longleftrightarrow> settled (fst s) (campaign_id campaign) k"
proof -
  let ?cid = "campaign_id campaign"
  have out: "(?cid, k) \<notin> Pair ?cid ` customer_id ` C" using assms(2) by auto
  show ?thesis
  proof
    assume "settled (fst s1) ?cid k"
    then obtain r where r: "r \<in> set (outreach_events (fst s1))" "event_key r = (?cid, k)" "terminal r"
      unfolding settled_def by blast
    have "r \<in> set (outreach_events (fst s))"
      using run_relD(5)[OF assms(1) r(1)] out r(2) by simp
    then show "settled (fst s) ?cid k" unfolding settled_def using r by blast
  next
    assume "settled (fst s) ?cid k"
    then obtain r where r: "r \<in> set (outreach_events (fst s))" "event_key r = (?cid, k)" "terminal r"
      unfolding settled_def by blast
    have "r \<in> set (outreach_events (fst s1))"
      using run_relD(4)[OF assms(1) r(1)] r(3) by simp
    then show "settled (fst s1) ?cid k" unfolding settled_def using r by blast
  qed
qed

lemma run_rel_compose:
  assumes a: "run_rel format campaign C1 s s1" and b: "run_rel format campaign C2 s1 s2"
      and disj: "customer_id ` C1 \<inter> customer_id ` C2 = {}" and fin: "finite C1" "finite C2"
  shows "run_rel format campaign (C1 \<union> C2) s s2"
proof (rule run_relI)
  let ?cid = "campaign_id campaign"
  let ?U = "\<lambda>t C. {cu \<in> C. \<not> settled (fst t) ?cid (customer_id cu)}"
  let ?F = "\<lambda>t C. {cu \<in> C. \<not> settled (fst t) ?cid (customer_id cu) \<and>
                          render_fails format campaign cu}"
  have disjC: "C1 \<inter> C2 = {}" using disj by blast
  have out2: "(?cid, customer_id cu) \<notin> Pair ?cid ` customer_id ` C2" if "cu \<in> C1" for cu
    using that disj by blast
  have out1: "(?cid, customer_id cu) \<notin> Pair ?cid ` customer_id ` C1" if "cu \<in> C2" for cu
    using that disj by blast
  show "unique_together (fst s2)" "primary_keys (fst s2)"
    using run_relD(1,2)[OF b] by simp_all
  show "set (map event_key (outreach_events (fst s2))) =
        set (map event_key (outreach_events (fst s))) \<union> Pair ?cid ` customer_id ` (C1 \<union> C2)"
    unfolding run_relD(3)[OF b] run_relD(3)[OF a] by (simp add: image_Un Un_assoc)
  show "r \<in> set (outreach_events (fst s2))"
    if "r \<in> set (outreach_events (fst s))"
       "event_key r \<notin> Pair ?cid ` customer_id ` (C1 \<union> C2) \<or> terminal r" for r
  proof -
    have "r \<in> set (outreach_events (fst s1))"
      using run_relD(4)[OF a that(1)] that(2) by blast
    then show ?thesis using run_relD(4)[OF b] that(2) by blast
  qed
  show "r \<in> set (outreach_events (fst s))"
    if "r \<in> set (outreach_events (fst s2))"
       "event_key r \<notin> Pair ?cid ` customer_id ` (C1 \<union> C2)" for r
  proof -
    have "r \<in> set (outreach_events (fst s1))"
      using run_relD(5)[OF b that(1)] that(2) by blast
    then show ?thesis using run_relD(5)[OF a] that(2) by blast
  qed
  show "customers (fst s2) = customers (fst s)" "visits (fst s2) = visits (fst s)"
    using run_relD(6,7)[OF a] run_relD(6,7)[OF b] by simp_all
  have same2: "settled (fst s1) ?cid (customer_id cu) \<longleftrightarrow> settled (fst s) ?cid (customer_id cu)"
    if "cu \<in> C2" for cu
    using run_rel_settled[OF a, of "customer_id cu"] that disj by blast
  have U2: "?U s1 C2 = ?U s C2" using same2 by blast
  have F2: "?F s1 C2 = ?F s C2" using same2 by blast
  have "?U s (C1 \<union> C2) = ?U s C1 \<union> ?U s C2" by blast
  moreover have "card (?U s C1 \<union> ?U s C2) = card (?U s C1) + card (?U s C2)"
    using disjC fin by (intro card_Un_disjoint) auto
  ultimately show "total_processed (snd s2) = total_processed (snd s) + card (?U s (C1 \<union> C2))"
    using run_relD(8)[OF a] run_relD(8)[OF b] U2 by simp
  have "?F s (C1 \<union> C2) = ?F s C1 \<union> ?F s C2" by blast
  moreover have "card (?F s C1 \<union> ?F s C2) = card (?F s C1) + card (?F s C2)"
    using disjC fin by (intro card_Un_disjoint) auto
  ultimately show "total_failed (snd s) + card (?F s (C1 \<union> C2)) \<le> total_failed (snd s2)"
    using run_relD(9)[OF a] run_relD(9)[OF b] F2 by simp
  show "\<exists>e' \<in> set (outreach_events (fst s2)). attempted format campaign cu e e'"
    if "cu \<in> C1 \<union> C2" "e \<in> set (outreach_events (fst s))"
       "event_key e = (?cid, customer_id cu)" "\<not> terminal e" for cu e
  proof (cases "cu \<in> C1")
    case True
    from run_relD(10)[OF a True that(2,3,4)]
    obtain e1 where e1: "e1 \<in> set (outreach_events (fst s1))" "attempted format campaign cu e e1"
      by blast
    have "event_key e1 = (?cid, customer_id cu)"
      using attempted_same_row[OF e1(2)] that(3) by simp
    then have "e1 \<in> set (outreach_events (fst s2))"
      using run_relD(4)[OF b e1(1)] out2[OF True] by simp
    then show ?thesis using e1(2) by blast
  next
    case False
    then have c2: "cu \<in> C2" using that(1) by blast
    have "e \<in> set (outreach_events (fst s1))"
      using run_relD(4)[OF a that(2)] out1[OF c2] that(3) by simp
    from run_relD(10)[OF b c2 this that(3,4)] show ?thesis .
  qed
  show "\<exists>e' \<in> set (outreach_events (fst s2)).
          attempted format campaign cu (queued_event (event_id e') ?cid (customer_id cu)) e'"
    if "cu \<in> C1 \<union> C2"
       "(?cid, customer_id cu) \<notin> set (map event_key (outreach_events (fst s)))" for cu
  proof (cases "cu \<in> C1")
    case True
    from run_relD(11)[OF a True that(2)]
    obtain e1 where e1: "e1 \<in> set (outreach_events (fst s1))"
      "attempted format campaign cu (queued_event (event_id e1) ?cid (customer_id cu)) e1"
      by blast
    have "event_key e1 = (?cid, customer_id cu)"
      using attempted_same_row[OF e1(2)] by simp
    then have "e1 \<in> set (outreach_events (fst s2))"
      using run_relD(4)[OF b e1(1)] out2[OF True] by simp
    then show ?thesis using e1(2) by blast
  next
    case False
    then have c2: "cu \<in> C2" using that(1) by blast
    have "(?cid, customer_id cu) \<notin> set (map event_key (outreach_events (fst s1)))"
      unfolding run_relD(3)[OF a] using that(2) out1[OF c2] by blast
    from run_relD(11)[OF b c2 this] show ?thesis .
  qed
qed

lemma run_rel_campaigns:
  "run_rel format campaign C (w\<lparr>campaigns := X\<rparr>, n) s' = run_rel format campaign C (w, n) s'"
  by (simp add: run_rel_def settled_def)

lemma process_batch_rel:
  assumes "unique_together w" and "primary_keys w" and "distinct (map customer_id cs)"
  shows "\<exists>s'. process_batch format campaign cs (w, n) = (None, s') \<and>
           campaigns (fst s') = campaigns w \<and>
           run_rel format campaign (set cs) (w, n) s'"
  using assms
proof (induction cs arbitrary: w n)
  case Nil
  then show ?case by (simp add: run_rel_empty)
next
  case (Cons c cs)
  from process_customer_rel[OF Cons.prems(1,2), of format campaign c n]
  obtain w1 n1 where step: "process_customer format campaign c (w, n) = (None, w1, n1)"
    and c1: "campaigns w1 = campaigns w"
    and r1: "run_rel format campaign {c} (w, n) (w1, n1)"
    by force
  have ok1: "unique_together w1" "primary_keys w1" using run_relD(1,2)[OF r1] by simp_all
  have d: "distinct (map customer_id cs)" using Cons.prems(3) by simp
  from Cons.IH[OF ok1 d, of n1]
  obtain s' where rest: "process_batch format campaign cs (w1, n1) = (None, s')"
    and c2: "campaigns (fst s') = campaigns w1"
    and r2: "run_rel format campaign (set cs) (w1, n1) s'"
    by blast
  have "customer_id ` {c} \<inter> customer_id ` set cs = {}" using Cons.prems(3) by simp
  from run_rel_compose[OF r1 r2 this]
  have "run_rel format campaign (set (c # cs)) (w, n) s'" by simp
  then show ?case using step rest c1 c2 by simp
qed

lemma campaign_pause_frame:
  "snd (campaign_pause w pk) = w\<lparr>campaigns := campaigns (snd (campaign_pause w pk))\<rparr>"
  by (simp add: campaign_pause_def split: get_result.splits)

lemma process_batches_rel:
  assumes "unique_together w" and "primary_keys w" and "distinct ids"
  shows "\<exists>s'. process_batches pause_at format campaign k ids (w, n) = (None, s') \<and>
           run_rel format campaign {cu \<in> set (customers w). customer_id cu \<in> set ids} (w, n) s'"
  using assms
proof (induction "length ids" arbitrary: ids k w n rule: less_induct)
  case less
  show ?case
  proof (cases "ids = []")
    case True
    then show ?thesis using less.prems by (simp add: process_batches.simps run_rel_empty)
  next
    case False
    define wh where "wh = (if pause_at k then snd (campaign_pause w (campaign_id campaign)) else w)"
    define batch_customers where
      "batch_customers = List.filter (\<lambda>c. customer_id c \<in> set (take batch_size ids)) (customers wh)"
    have wh: "wh = w\<lparr>campaigns := campaigns wh\<rparr>"
      unfolding wh_def using campaign_pause_frame[of w "campaign_id campaign"] by auto
    have okh: "unique_together wh" "primary_keys wh"
      using less.prems(1,2) by (subst wh, simp add: unique_together_def primary_keys_def)+
    have cust: "customers wh = customers w" by (subst wh) simp
    have dc: "distinct (map customer_id (customers w))"
      using less.prems(2) by (simp add: primary_keys_def)
    have db: "distinct (map customer_id batch_customers)"
      unfolding batch_customers_def cust using dc by (rule distinct_map_filter)
    have sb: "set batch_customers =
              {cu \<in> set (customers w). customer_id cu \<in> set (take batch_size ids)}"
      unfolding batch_customers_def cust by auto
    from process_batch_rel[OF okh db, of format campaign n]
    obtain s1 where b: "process_batch format campaign batch_customers (wh, n) = (None, s1)"
      and r1: "run_rel format campaign
                 {cu \<in> set (customers w). customer_id cu \<in> set (take batch_size ids)} (wh, n) s1"
      unfolding sb by blast
    have r1': "run_rel format campaign
                 {cu \<in> set (customers w). customer_id cu \<in> set (take batch_size ids)} (w, n) s1"
      using r1 run_rel_campaigns[where w = w and X = "campaigns wh" and n = n and s' = s1] wh
      by simp
    obtain w1 n1 where s1: "s1 = (w1, n1)" by (cases s1)
    have ok1: "unique_together w1" "primary_keys w1" "customers w1 = customers w"
      using run_relD(1,2,6)[OF r1'] s1 by simp_all
    have shorter: "length (drop batch_size ids) < length ids"
      using False by (simp add: batch_size_def)
    from less.hyps[OF shorter ok1(1,2) distinct_drop[OF less.prems(3)], of "Suc k" n1]
    obtain s' where rest: "process_batches pause_at format campaign (Suc k) (drop batch_size ids) (w1, n1) = (None, s')"
      and r2: "run_rel format campaign
                 {cu \<in> set (customers w). customer_id cu \<in> set (drop batch_size ids)} (w1, n1) s'"
      unfolding ok1(3) by blast
    have td: "set (take batch_size ids) \<inter> set (drop batch_size ids) = {}"
      using less.prems(3) by (rule set_take_disj_set_drop_if_distinct) simp
    have disj: "customer_id ` {cu \<in> set (customers w). customer_id cu \<in> set (take batch_size ids)} \<inter>
                customer_id ` {cu \<in> set (customers w). customer_id cu \<in> set (drop batch_size ids)} = {}"
    proof -
      have False if "x \<in> set (take batch_size ids)" "x \<in> set (drop batch_size ids)" for x
        using td that by blast
      then show ?thesis by auto
    qed
    have "set ids = set (take batch_size ids) \<union> set (drop batch_size ids)"
      by (metis append_take_drop_id set_append)
    then have un: "{cu \<in> set (customers w). customer_id cu \<in> set (take batch_size ids)} \<union>
              {cu \<in> set (customers w). customer_id cu \<in> set (drop batch_size ids)} =
              {cu \<in> set (customers w). customer_id cu \<in> set ids}"
      by blast
    from run_rel_compose[OF r1'[unfolded s1] r2 disj]
    have "run_rel format campaign {cu \<in> set (customers w). customer_id cu \<in> set ids} (w, n) s'"
      unfolding un by simp
    moreover have "process_batches pause_at format campaign k ids (w, n) = (None, s')"
      using False b rest s1
      by (subst process_batches.simps) (simp add: wh_def batch_customers_def Let_def)
    ultimately show ?thesis by blast
  qed
qed

section \<open>The campaign table during a run\<close>

lemma process_customer_campaigns:
  "process_customer format campaign customer (w\<lparr>campaigns := X\<rparr>, n) =
   with_campaigns X (process_customer format campaign customer (w, n))"
  by (simp add: get_or_create_def objects_get_def Let_def random_random_def timezone_now_def
      split: list.splits sum.splits)

lemma process_batch_campaigns:
  "process_batch format campaign cs (w\<lparr>campaigns := X\<rparr>, n) =
   with_campaigns X (process_batch format campaign cs (w, n))"
proof (induction cs arbitrary: w n)
  case Nil
  then show ?case by simp
next
  case (Cons c cs)
  obtain r w1 n1 where p: "process_customer format campaign c (w, n) = (r, w1, n1)"
    by (metis prod_cases3)
  show ?case
    using Cons.IH[of w1 n1] p
    by (cases r) (simp_all add: process_customer_campaigns del: process_customer.simps)
qed

lemma process_batch_keeps_campaigns:
  "campaigns (fst (snd (process_batch format campaign cs (w, n)))) = campaigns w"
proof -
  have "process_batch format campaign cs (w, n) =
        with_campaigns (campaigns w) (process_batch format campaign cs (w, n))"
    using process_batch_campaigns[where w = w and X = "campaigns w" and n = n] by simp
  moreover obtain a b c where r: "process_batch format campaign cs (w, n) = (a, b, c)"
    by (metis prod_cases3)
  ultimately have "b = b\<lparr>campaigns := campaigns w\<rparr>" by simp
  then have "campaigns b = campaigns (b\<lparr>campaigns := campaigns w\<rparr>)" by (rule arg_cong)
  then show ?thesis using r by simp
qed

lemma filter_save_campaign_status:
  "List.filter (\<lambda>r. campaign_id r = pk) (save_campaign_status c rows) =
   map (\<lambda>r. if campaign_id r = campaign_id c then r\<lparr>campaign_status := campaign_status c\<rparr> else r)
     (List.filter (\<lambda>r. campaign_id r = pk) rows)"
  by (induction rows) (auto simp: save_campaign_status_def)

lemma objects_get_campaign_id:
  "objects_get (\<lambda>r. campaign_id r = pk) rows = Found c \<Longrightarrow> campaign_id c = pk"
  by (metis (mono_tags, lifting) objects_get_Found_iff filter_eq_ConsD)

lemma objects_get_save_campaign_status:
  assumes "objects_get (\<lambda>r. campaign_id r = pk) rows = Found c" and "campaign_id c' = pk"
  shows "objects_get (\<lambda>r. campaign_id r = pk) (save_campaign_status c' rows) =
         Found (c\<lparr>campaign_status := campaign_status c'\<rparr>)"
  using assms objects_get_campaign_id[OF assms(1)]
  by (simp add: objects_get_Found_iff filter_save_campaign_status)

lemma save_campaign_status_twice:
  "campaign_id c2 = campaign_id c1 \<Longrightarrow>
   save_campaign_status c2 (save_campaign_status c1 rows) = save_campaign_status c2 rows"
  by (induction rows) (auto simp: save_campaign_status_def)

lemma campaign_pause_two:
  assumes found: "objects_get (\<lambda>r. campaign_id r = pk) (campaigns w) = Found c"
      and X: "X = campaigns w \<or>
              X = save_campaign_status (c\<lparr>campaign_status := ''paused''\<rparr>) (campaigns w)"
  shows "\<exists>X'. (X' = campaigns w \<or>
               X' = save_campaign_status (c\<lparr>campaign_status := ''paused''\<rparr>) (campaigns w)) \<and>
              snd (campaign_pause (w\<lparr>campaigns := X\<rparr>) pk) = w\<lparr>campaigns := X'\<rparr>"
proof -
  have pk: "campaign_id c = pk" using found by (rule objects_get_campaign_id)
  from X show ?thesis
  proof
    assume X1: "X = campaigns w"
    show ?thesis
    proof (cases "campaign_status c = ''running''")
      case True
      then have "snd (campaign_pause (w\<lparr>campaigns := X\<rparr>) pk) =
          w\<lparr>campaigns := save_campaign_status (c\<lparr>campaign_status := ''paused''\<rparr>) (campaigns w)\<rparr>"
        using X1 found by (simp add: campaign_pause_def)
      then show ?thesis by blast
    next
      case False
      then have "snd (campaign_pause (w\<lparr>campaigns := X\<rparr>) pk) = w\<lparr>campaigns := campaigns w\<rparr>"
        using X1 found by (simp add: campaign_pause_def)
      then show ?thesis by blast
    qed
  next
    assume X2: "X = save_campaign_status (c\<lparr>campaign_status := ''paused''\<rparr>) (campaigns w)"
    have "objects_get (\<lambda>r. campaign_id r = pk) X = Found (c\<lparr>campaign_status := ''paused''\<rparr>)"
      unfolding X2 using objects_get_save_campaign_status[OF found, of "c\<lparr>campaign_status := ''paused''\<rparr>"] pk
      by simp
    then have "snd (campaign_pause (w\<lparr>campaigns := X\<rparr>) pk) = w\<lparr>campaigns := X\<rparr>"
      by (simp add: campaign_pause_def)
    then show ?thesis using X2 by blast
  qed
qed

lemma process_batches_keeps_campaigns:
  "campaigns (fst (snd (process_batches (\<lambda>k. False) format campaign k ids (w, n)))) = campaigns w"
proof (induction "length ids" arbitrary: ids k w n rule: less_induct)
  case less
  show ?case
  proof (cases "ids = []")
    case True
    then show ?thesis by (simp add: process_batches.simps)
  next
    case False
    define bc where "bc = List.filter (\<lambda>c. customer_id c \<in> set (take batch_size ids)) (customers w)"
    obtain r w1 n1 where b: "process_batch format campaign bc (w, n) = (r, w1, n1)"
      by (metis prod_cases3)
    have c1: "campaigns w1 = campaigns w"
      using process_batch_keeps_campaigns[of format campaign bc w n] b by simp
    have shorter: "length (drop batch_size ids) < length ids"
      using False by (simp add: batch_size_def)
    show ?thesis
    proof (cases r)
      case None
      then show ?thesis
        using False b c1 less.hyps[OF shorter, of "Suc k" w1 n1]
        by (subst process_batches.simps) (simp add: bc_def Let_def)
    next
      case (Some e)
      then show ?thesis
        using False b c1 by (subst process_batches.simps) (simp add: bc_def Let_def)
    qed
  qed
qed

lemma process_batches_interleaved:
  assumes found: "objects_get (\<lambda>r. campaign_id r = campaign_id campaign) (campaigns w) = Found c"
      and X: "X = campaigns w \<or>
              X = save_campaign_status (c\<lparr>campaign_status := ''paused''\<rparr>) (campaigns w)"
  shows "\<exists>X'. (X' = campaigns w \<or>
               X' = save_campaign_status (c\<lparr>campaign_status := ''paused''\<rparr>) (campaigns w)) \<and>
              process_batches pause_at format campaign k ids (w\<lparr>campaigns := X\<rparr>, n) =
              with_campaigns X' (process_batches (\<lambda>k. False) format campaign k ids (w, n))"
  using assms
proof (induction "length ids" arbitrary: ids k w n X rule: less_induct)
  case less
  show ?case
  proof (cases "ids = []")
    case True
    then show ?thesis using less.prems(2) by (auto simp: process_batches.simps)
  next
    case False
    define bc where "bc = List.filter (\<lambda>c. customer_id c \<in> set (take batch_size ids)) (customers w)"
    define wh where "wh = (if pause_at k then snd (campaign_pause (w\<lparr>campaigns := X\<rparr>) (campaign_id campaign))
                           else w\<lparr>campaigns := X\<rparr>)"
    obtain Xh where Xh: "Xh = campaigns w \<or>
               Xh = save_campaign_status (c\<lparr>campaign_status := ''paused''\<rparr>) (campaigns w)"
      and wh: "wh = w\<lparr>campaigns := Xh\<rparr>"
      using campaign_pause_two[OF less.prems(1,2)] less.prems(2) unfolding wh_def
      by (cases "pause_at k") auto
    obtain r w1 n1 where b: "process_batch format campaign bc (w, n) = (r, w1, n1)"
      by (metis prod_cases3)
    have bh: "process_batch format campaign bc (wh, n) = (r, w1\<lparr>campaigns := Xh\<rparr>, n1)"
      unfolding wh using process_batch_campaigns[where w = w and X = Xh and n = n and cs = bc] b by simp
    have bc_h: "List.filter (\<lambda>c. customer_id c \<in> set (take batch_size ids)) (customers wh) = bc"
      unfolding wh bc_def by simp
    have c1: "campaigns w1 = campaigns w"
      using process_batch_keeps_campaigns[of format campaign bc w n] b by simp
    have shorter: "length (drop batch_size ids) < length ids"
      using False by (simp add: batch_size_def)
    have seq: "process_batches (\<lambda>k. False) format campaign k ids (w, n) =
          (case r of Some e \<Rightarrow> (Some e, w1, n1)
           | None \<Rightarrow> process_batches (\<lambda>k. False) format campaign (Suc k) (drop batch_size ids) (w1, n1))"
      using False b by (subst process_batches.simps) (simp add: bc_def Let_def split: option.splits)
    have inter: "process_batches pause_at format campaign k ids (w\<lparr>campaigns := X\<rparr>, n) =
          (case r of Some e \<Rightarrow> (Some e, w1\<lparr>campaigns := Xh\<rparr>, n1)
           | None \<Rightarrow> process_batches pause_at format campaign (Suc k) (drop batch_size ids)
                       (w1\<lparr>campaigns := Xh\<rparr>, n1))"
      using False bh bc_h
      by (subst process_batches.simps) (simp add: wh_def[symmetric] Let_def split: option.splits)
    show ?thesis
    proof (cases r)
      case (Some e)
      then show ?thesis using seq inter Xh by auto
    next
      case None
      have found1: "objects_get (\<lambda>r. campaign_id r = campaign_id campaign) (campaigns w1) = Found c"
        using less.prems(1) c1 by simp
      have Xh1: "Xh = campaigns w1 \<or>
               Xh = save_campaign_status (c\<lparr>campaign_status := ''paused''\<rparr>) (campaigns w1)"
        using Xh c1 by simp
      from less.hyps[OF shorter found1 Xh1, of "Suc k" n1]
      show ?thesis using seq inter None c1 by simp
    qed
  qed
qed

section \<open>The pipeline, a whole run\<close>

lemma process_customer_error:
  "process_customer format campaign customer (w, n) = (Some e, s') \<Longrightarrow> e = MultipleObjectsReturned"
  by (auto simp: get_or_create_def objects_get_def Let_def random_random_def timezone_now_def
      split: list.splits sum.splits if_splits)

lemma process_batch_error:
  "process_batch format campaign cs s = (Some e, s') \<Longrightarrow> e = MultipleObjectsReturned"
proof (induction cs arbitrary: s)
  case Nil
  then show ?case by simp
next
  case (Cons c cs)
  obtain w n where s: "s = (w, n)" by (cases s)
  obtain r s1 where p: "process_customer format campaign c (w, n) = (r, s1)" by (cases "process_customer format campaign c (w, n)")
  show ?case
  proof (cases r)
    case None
    then show ?thesis using Cons p s by (simp del: process_customer.simps)
  next
    case (Some e')
    then show ?thesis using Cons.prems p s process_customer_error[of format campaign c w n e' s1]
      by (simp del: process_customer.simps)
  qed
qed

lemma process_batches_error:
  "process_batches pause_at format campaign k ids (w, n) = (Some e, s') \<Longrightarrow> e = MultipleObjectsReturned"
proof (induction "length ids" arbitrary: ids k w n rule: less_induct)
  case less
  show ?case
  proof (cases "ids = []")
    case True
    then show ?thesis using less.prems by (simp add: process_batches.simps)
  next
    case False
    define wh where "wh = (if pause_at k then snd (campaign_pause w (campaign_id campaign)) else w)"
    define bc where "bc = List.filter (\<lambda>c. customer_id c \<in> set (take batch_size ids)) (customers wh)"
    obtain r w1 n1 where b: "process_batch format campaign bc (wh, n) = (r, w1, n1)"
      by (metis prod_cases3)
    have shorter: "length (drop batch_size ids) < length ids"
      using False by (simp add: batch_size_def)
    have unf: "process_batches pause_at format campaign k ids (w, n) =
          (case r of Some e \<Rightarrow> (Some e, w1, n1)
           | None \<Rightarrow> process_batches pause_at format campaign (Suc k) (drop batch_size ids) (w1, n1))"
      using False b
      by (subst process_batches.simps)
         (simp add: wh_def[symmetric] bc_def[symmetric] Let_def split: option.splits)
    show ?thesis
    proof (cases r)
      case None
      then show ?thesis using less.hyps[OF shorter, of "Suc k" w1 n1] less.prems unf by simp
    next
      case (Some e')
      then show ?thesis using process_batch_error[OF b[unfolded Some]] less.prems unf by simp
    qed
  qed
qed

lemma apply_segmentation_world:
  "snd (apply_segmentation w c qs) =
     (if segment_type c = ''inactive_days'' then w\<lparr>clock := stl (clock w)\<rparr> else w)"
  by (simp add: apply_segmentation_def inactive_days_def timezone_now_def split: sum.splits)

lemma apply_segmentation_frame:
  "\<exists>ck. snd (apply_segmentation w c qs) = w\<lparr>clock := ck\<rparr>"
proof (cases "segment_type c = ''inactive_days''")
  case True
  then show ?thesis unfolding apply_segmentation_world by auto
next
  case False
  then have "snd (apply_segmentation w c qs) = w\<lparr>clock := clock w\<rparr>"
    unfolding apply_segmentation_world by simp
  then show ?thesis by (rule exI)
qed

lemma apply_segmentation_filter:
  "apply_segmentation w c qs = (Inr (Some seg), w1) \<Longrightarrow> \<exists>P. seg = List.filter P qs"
  unfolding apply_segmentation_def inactive_days_def timezone_now_def high_spenders_def Let_def
  by (auto split: sum.splits if_splits)


lemma mark_paused_two:
  assumes found: "objects_get (\<lambda>r. campaign_id r = pk) (campaigns w) = Found c"
      and X: "X = campaigns w \<or>
              X = save_campaign_status (c\<lparr>campaign_status := ''paused''\<rparr>) (campaigns w)"
  shows "mark_paused (w\<lparr>campaigns := X\<rparr>) pk = mark_paused w pk"
proof -
  have pk: "campaign_id c = pk" using found by (rule objects_get_campaign_id)
  from X show ?thesis
  proof
    assume "X = campaigns w"
    then show ?thesis by simp
  next
    assume X2: "X = save_campaign_status (c\<lparr>campaign_status := ''paused''\<rparr>) (campaigns w)"
    have "objects_get (\<lambda>r. campaign_id r = pk) X = Found (c\<lparr>campaign_status := ''paused''\<rparr>)"
      unfolding X2
      using objects_get_save_campaign_status[OF found, of "c\<lparr>campaign_status := ''paused''\<rparr>"] pk
      by simp
    then show ?thesis
      using found X2 save_campaign_status_twice[of "c\<lparr>campaign_status := ''paused''\<rparr>"
          "c\<lparr>campaign_status := ''paused''\<rparr>" "campaigns w"]
      by (simp add: mark_paused_def)
  qed
qed

lemma completed_two:
  assumes "X = campaigns w \<or>
           X = save_campaign_status (c\<lparr>campaign_status := ''paused''\<rparr>) (campaigns w)"
  shows "save_campaign_status (c\<lparr>campaign_status := ''completed''\<rparr>) X =
         save_campaign_status (c\<lparr>campaign_status := ''completed''\<rparr>) (campaigns w)"
  using assms save_campaign_status_twice[of "c\<lparr>campaign_status := ''completed''\<rparr>"
          "c\<lparr>campaign_status := ''paused''\<rparr>" "campaigns w"]
  by auto

lemma run_interleaved_summary:
  assumes ut: "unique_together w" and pks: "primary_keys w"
      and found: "objects_get (\<lambda>r. campaign_id r = pk) (campaigns w) = Found c"
      and seg: "apply_segmentation w c
                  (List.filter (\<lambda>x. customer_restaurant x = campaign_restaurant c) (customers w)) =
                (Inr (Some segment), w1)"
  shows "\<exists>w2 n.
           run_rel format c (set segment)
             (w1, \<lparr>total_processed = 0, total_sent = 0, total_failed = 0\<rparr>) (w2, n) \<and>
           campaigns w2 = campaigns w \<and>
           run_campaign_task_interleaved pause_at format w pk =
             (Inr (Summary pk (total_processed n) (total_sent n) (total_failed n)),
              w2\<lparr>campaigns := save_campaign_status (c\<lparr>campaign_status := ''completed''\<rparr>)
                                  (campaigns w)\<rparr>)"
proof -
  let ?qs = "List.filter (\<lambda>x. customer_restaurant x = campaign_restaurant c) (customers w)"
  let ?n0 = "\<lparr>total_processed = 0, total_sent = 0, total_failed = 0\<rparr>"
  have cid: "campaign_id c = pk" using found by (rule objects_get_campaign_id)
  from apply_segmentation_frame[of w c ?qs] seg
  obtain ck where w1: "w1 = w\<lparr>clock := ck\<rparr>" by auto
  have ok1: "unique_together w1" "primary_keys w1"
    using ut pks by (simp_all add: w1 unique_together_def primary_keys_def)
  from apply_segmentation_filter[OF seg] obtain P where P: "segment = List.filter P ?qs" by blast
  have dc: "distinct (map customer_id (customers w))"
    using pks by (simp add: primary_keys_def)
  have d: "distinct (map customer_id segment)"
    unfolding P by (intro distinct_map_filter dc)
  have sub: "set segment \<subseteq> set (customers w1)"
    unfolding P w1 by auto
  have "cu \<in> set segment"
    if "cu \<in> set (customers w1)" "customer_id cu \<in> set (map customer_id segment)" for cu
  proof -
    from that(2) obtain x where x: "x \<in> set segment" "customer_id cu = customer_id x" by auto
    have "distinct (map customer_id (customers w1))" using dc by (simp add: w1)
    from distinct_map_eq[OF this that(1) _ x(2)] x(1) sub show ?thesis by auto
  qed
  then have C: "{cu \<in> set (customers w1). customer_id cu \<in> set (map customer_id segment)} =
                set segment"
    using sub by auto
  from process_batches_rel[OF ok1 d, of "\<lambda>k. False" format c 0 ?n0]
  obtain w2 n where b: "process_batches (\<lambda>k. False) format c 0 (map customer_id segment) (w1, ?n0) = (None, w2, n)"
    and r: "run_rel format c (set segment) (w1, ?n0) (w2, n)"
    unfolding C by auto
  have c2: "campaigns w2 = campaigns w"
    using process_batches_keeps_campaigns[of format c 0 "map customer_id segment" w1 ?n0] b
    by (simp add: w1)
  have found1: "objects_get (\<lambda>r. campaign_id r = campaign_id c) (campaigns w1) = Found c"
    using found cid by (simp add: w1)
  from process_batches_interleaved[OF found1, of "campaigns w1" pause_at format 0
      "map customer_id segment" ?n0]
  obtain X' where X': "X' = campaigns w2 \<or>
           X' = save_campaign_status (c\<lparr>campaign_status := ''paused''\<rparr>) (campaigns w2)"
    and inter: "process_batches pause_at format c 0 (map customer_id segment) (w1, ?n0) =
                (None, w2\<lparr>campaigns := X'\<rparr>, n)"
    using b c2 by (auto simp: w1)
  have "save_campaign_status (c\<lparr>campaign_status := ''completed''\<rparr>) X' =
        save_campaign_status (c\<lparr>campaign_status := ''completed''\<rparr>) (campaigns w)"
    using completed_two[OF X'] c2 by simp
  then have "run_campaign_task_interleaved pause_at format w pk =
             (Inr (Summary pk (total_processed n) (total_sent n) (total_failed n)),
              w2\<lparr>campaigns := save_campaign_status (c\<lparr>campaign_status := ''completed''\<rparr>)
                                  (campaigns w)\<rparr>)"
    unfolding run_campaign_task_interleaved_def run_campaign_try_def
    using found seg inter by (simp add: Let_def)
  then show ?thesis using r c2 by blast
qed

lemma run_campaign_task_summary:
  assumes "unique_together w" and "primary_keys w"
      and "objects_get (\<lambda>r. campaign_id r = pk) (campaigns w) = Found c"
      and "apply_segmentation w c
             (List.filter (\<lambda>x. customer_restaurant x = campaign_restaurant c) (customers w)) =
           (Inr (Some segment), w1)"
  shows "\<exists>w2 n.
           run_rel format c (set segment)
             (w1, \<lparr>total_processed = 0, total_sent = 0, total_failed = 0\<rparr>) (w2, n) \<and>
           campaigns w2 = campaigns w \<and>
           run_campaign_task format w pk =
             (Inr (Summary pk (total_processed n) (total_sent n) (total_failed n)),
              w2\<lparr>campaigns := save_campaign_status (c\<lparr>campaign_status := ''completed''\<rparr>)
                                  (campaigns w)\<rparr>)"
  unfolding run_campaign_task_def using assms by (rule run_interleaved_summary)

lemma run_campaign_try_keeps_campaigns:
  assumes "fst (run_campaign_try (\<lambda>k. False) format w pk) = Inl e"
  shows "campaigns (snd (run_campaign_try (\<lambda>k. False) format w pk)) = campaigns w"
proof (cases "objects_get (\<lambda>r. campaign_id r = pk) (campaigns w)")
  case DoesNotExist
  then show ?thesis by (simp add: run_campaign_try_def)
next
  case Multiple
  then show ?thesis by (simp add: run_campaign_try_def)
next
  case (Found c)
  let ?qs = "List.filter (\<lambda>x. customer_restaurant x = campaign_restaurant c) (customers w)"
  obtain r w1 where seg: "apply_segmentation w c ?qs = (r, w1)" by (cases "apply_segmentation w c ?qs")
  from apply_segmentation_frame[of w c ?qs] seg
  obtain ck where w1: "w1 = w\<lparr>clock := ck\<rparr>" by auto
  show ?thesis
  proof (cases r)
    case (Inl e')
    then show ?thesis using Found seg w1 by (simp add: run_campaign_try_def)
  next
    case (Inr sel)
    show ?thesis
    proof (cases sel)
      case None
      then show ?thesis using Found seg w1 Inr by (simp add: run_campaign_try_def)
    next
      case (Some segment)
      let ?n0 = "\<lparr>total_processed = 0, total_sent = 0, total_failed = 0\<rparr>"
      obtain r2 w2 n where b: "process_batches (\<lambda>k. False) format c 0 (map customer_id segment) (w1, ?n0) = (r2, w2, n)"
        by (metis prod_cases3)
      have "campaigns w2 = campaigns w"
        using process_batches_keeps_campaigns[of format c 0 "map customer_id segment" w1 ?n0] b
        by (simp add: w1)
      then show ?thesis using Found seg Inr Some b assms
        by (cases r2) (simp_all add: run_campaign_try_def Let_def)
    qed
  qed
qed

lemma settled_events:
  "outreach_events w' = outreach_events w \<Longrightarrow> settled w' cid k = settled w cid k"
  by (simp add: settled_def)

lemma attempted_outcome:
  assumes "attempted format campaign cu e e'"
  shows "event_key e' = event_key e"
    and "event_status e' = ''failed'' \<or> event_status e' = ''sent''"
    and "format (message_template campaign) (first_name cu) = Inl msg \<Longrightarrow>
         event_status e' = ''failed'' \<and> error_message e' = Some msg"
  using assms by (auto simp: attempted_def event_key_def split: sum.splits)


lemma render_fails_status:
  "render_fails format (c\<lparr>campaign_status := s\<rparr>) cu = render_fails format c cu"
  by (simp add: render_fails_def)

lemma run_rel_attempt:
  assumes r: "run_rel format campaign C (w, n) (w', n')"
      and cu: "cu \<in> C" and nst: "\<not> settled w (campaign_id campaign) (customer_id cu)"
  shows "\<exists>e e'. e' \<in> set (outreach_events w') \<and> attempted format campaign cu e e' \<and>
           event_key e = (campaign_id campaign, customer_id cu)"
proof (cases "(campaign_id campaign, customer_id cu) \<in> set (map event_key (outreach_events w))")
  case True
  then obtain e where e: "e \<in> set (outreach_events w)"
    "event_key e = (campaign_id campaign, customer_id cu)" by auto
  then have "\<not> terminal e" using nst by (auto simp: settled_def)
  from run_relD(10)[OF r cu, of e] e this
  obtain e' where "e' \<in> set (outreach_events w')" "attempted format campaign cu e e'"
    by auto
  then show ?thesis using e(2) by blast
next
  case False
  from run_relD(11)[OF r cu] False
  obtain e' where "e' \<in> set (outreach_events w')"
    "attempted format campaign cu
       (queued_event (event_id e') (campaign_id campaign) (customer_id cu)) e'"
    by auto
  then show ?thesis using queued_event_sel(3) by blast
qed

lemma run_rel_failed_row:
  assumes "run_rel format campaign C (w, n) (w', n')"
      and "cu \<in> C" and "\<not> settled w (campaign_id campaign) (customer_id cu)"
      and "format (message_template campaign) (first_name cu) = Inl msg"
  shows "\<exists>e \<in> set (outreach_events w').
           event_key e = (campaign_id campaign, customer_id cu) \<and>
           event_status e = ''failed'' \<and> error_message e = Some msg"
proof -
  from run_rel_attempt[OF assms(1,2,3)]
  obtain e e' where e: "e' \<in> set (outreach_events w')" "attempted format campaign cu e e'"
    "event_key e = (campaign_id campaign, customer_id cu)" by blast
  show ?thesis
    using e(1,3) attempted_outcome(1)[OF e(2)] attempted_outcome(3)[OF e(2) assms(4)] by auto
qed

lemma run_rel_every_row:
  assumes r: "run_rel format campaign C (w, n) (w', n')" and cu: "cu \<in> C"
  shows "\<exists>e \<in> set (outreach_events w').
           event_key e = (campaign_id campaign, customer_id cu) \<and>
           (event_status e = ''sent'' \<or> event_status e = ''skipped'' \<or> event_status e = ''failed'')"
proof (cases "settled w (campaign_id campaign) (customer_id cu)")
  case True
  then obtain e where e: "e \<in> set (outreach_events w)"
    "event_key e = (campaign_id campaign, customer_id cu)" "terminal e"
    by (auto simp: settled_def)
  then have "e \<in> set (outreach_events w')" using run_relD(4)[OF r, of e] by simp
  then show ?thesis using e by (auto simp: terminal_def)
next
  case False
  from run_rel_attempt[OF r cu False]
  obtain e e' where e: "e' \<in> set (outreach_events w')" "attempted format campaign cu e e'"
    "event_key e = (campaign_id campaign, customer_id cu)" by blast
  show ?thesis
    using e(1,3) attempted_outcome(1,2)[OF e(2)] by auto
qed

lemma segment_of_customers:
  assumes pks: "primary_keys w"
      and seg: "apply_segmentation w c
                  (List.filter (\<lambda>x. customer_restaurant x = campaign_restaurant c) (customers w)) =
                (Inr (Some segment), w1)"
  shows "distinct (map customer_id segment)" and "set segment \<subseteq> set (customers w)"
    and "outreach_events w1 = outreach_events w"
proof -
  let ?qs = "List.filter (\<lambda>x. customer_restaurant x = campaign_restaurant c) (customers w)"
  from apply_segmentation_filter[OF seg] obtain P where P: "segment = List.filter P ?qs" by blast
  have dc: "distinct (map customer_id (customers w))"
    using pks by (simp add: primary_keys_def)
  show "distinct (map customer_id segment)"
    unfolding P by (intro distinct_map_filter dc)
  show "set segment \<subseteq> set (customers w)" unfolding P by auto
  from apply_segmentation_frame[of w c ?qs] seg
  obtain ck where "w1 = w\<lparr>clock := ck\<rparr>" by auto
  then show "outreach_events w1 = outreach_events w" by simp
qed


section \<open>Evaluating the examples\<close>

lemmas shop_defs = shop_def winback_def birthday_def far_back_def broken_def
  never_visited_def regular_def lapsed_def

lemmas run_defs = run_campaign_task_def run_campaign_task_interleaved_def run_campaign_try_def
  apply_segmentation_def inactive_days_def high_spenders_def timezone_now_def timedelta_days_def
  datetime_sub_def datetime_ok_def us_per_day_def objects_get_def process_batches.simps
  batch_size_def get_or_create_def random_random_def save_event_outcome_def
  save_event_failure_def save_campaign_status_def mark_paused_def Let_def

section \<open>Outcomes of a run\<close>

text \<open>
  C3. For every campaign whose \<open>segment_type\<close> is neither \<open>inactive_days\<close> nor
  \<open>high_spenders\<close>, the task returns \<open>None\<close> and leaves the whole store as it was:
  no OutreachEvent row is created and the campaign keeps its status.
\<close>

theorem run_unknown_segment:
  assumes "objects_get (\<lambda>r. campaign_id r = pk) (campaigns w) = Found c"
      and "segment_type c \<noteq> ''inactive_days''" and "segment_type c \<noteq> ''high_spenders''"
  shows "run_campaign_task format w pk = (Inr ReturnedNone, w)"
  using assms
  by (simp add: run_campaign_task_def run_campaign_task_interleaved_def run_campaign_try_def
      apply_segmentation_def)

text \<open>
  C9. When no campaign has the given id, the task stops at once: it hands the caller
  the dictionary \<open>{'error': 'Campaign <id> not found'}\<close> and leaves the whole store as
  it was, so no OutreachEvent row is created and no campaign or customer is changed.
\<close>

theorem run_campaign_not_found:
  assumes "\<forall>c \<in> set (campaigns w). campaign_id c \<noteq> pk"
  shows "run_campaign_task format w pk =
           (Inr (ErrorDict (''Campaign '' @ str_int pk @ '' not found'')), w)"
proof -
  have "List.filter (\<lambda>r. campaign_id r = pk) (campaigns w) = []"
    using assms by (simp add: filter_empty_conv)
  then have "objects_get (\<lambda>r. campaign_id r = pk) (campaigns w) = DoesNotExist"
    by (simp add: objects_get_def)
  then show ?thesis
    by (simp add: run_campaign_task_def run_campaign_task_interleaved_def run_campaign_try_def)
qed

text \<open>
  C5. For every run that loads its campaign and resolves a recognised segment: when
  the run finishes its batches, that is, returns its totals, the campaign row has the
  status \<open>completed\<close> afterwards, whatever the events ended as and however many
  customers the segment has; and under the constraints of the models the run does
  finish its batches.
\<close>

theorem run_completed:
  assumes "objects_get (\<lambda>r. campaign_id r = pk) (campaigns w) = Found c"
      and "apply_segmentation w c
             (List.filter (\<lambda>x. customer_restaurant x = campaign_restaurant c) (customers w)) =
           (Inr (Some segment), w1)"
  shows "(unique_together w \<and> primary_keys w \<longrightarrow>
            (\<exists>p s f. fst (run_campaign_task format w pk) = Inr (Summary pk p s f))) \<and>
         (\<forall>p s f. fst (run_campaign_task format w pk) = Inr (Summary pk p s f) \<longrightarrow>
            objects_get (\<lambda>r. campaign_id r = pk) (campaigns (snd (run_campaign_task format w pk))) =
              Found (c\<lparr>campaign_status := ''completed''\<rparr>))"
proof (intro conjI impI allI)
  assume "unique_together w \<and> primary_keys w"
  then show "\<exists>p s f. fst (run_campaign_task format w pk) = Inr (Summary pk p s f)"
    using run_campaign_task_summary[OF _ _ assms, of format] by force
next
  fix p s f
  assume sum: "fst (run_campaign_task format w pk) = Inr (Summary pk p s f)"
  let ?n0 = "\<lparr>total_processed = 0, total_sent = 0, total_failed = 0\<rparr>"
  have cid: "campaign_id c = pk" using assms(1) by (rule objects_get_campaign_id)
  obtain r2 w2 n where b: "process_batches (\<lambda>k. False) format c 0 (map customer_id segment) (w1, ?n0) = (r2, w2, n)"
    by (metis prod_cases3)
  from apply_segmentation_frame[of w c
      "List.filter (\<lambda>x. customer_restaurant x = campaign_restaurant c) (customers w)"] assms(2)
  obtain ck where w1: "w1 = w\<lparr>clock := ck\<rparr>" by auto
  have c2: "campaigns w2 = campaigns w"
    using process_batches_keeps_campaigns[of format c 0 "map customer_id segment" w1 ?n0] b
    by (simp add: w1)
  have "r2 = None"
    using sum assms b process_batches_error[of "\<lambda>k. False" format c 0 "map customer_id segment" w1 ?n0 _ "(w2, n)"]
    by (cases r2)
       (simp_all add: run_campaign_task_def run_campaign_task_interleaved_def
          run_campaign_try_def Let_def)
  then have "campaigns (snd (run_campaign_task format w pk)) =
      save_campaign_status (c\<lparr>campaign_status := ''completed''\<rparr>) (campaigns w)"
    using assms b c2
    by (simp add: run_campaign_task_def run_campaign_task_interleaved_def
          run_campaign_try_def Let_def)
  then show "objects_get (\<lambda>r. campaign_id r = pk) (campaigns (snd (run_campaign_task format w pk))) =
              Found (c\<lparr>campaign_status := ''completed''\<rparr>)"
    using objects_get_save_campaign_status[OF assms(1), of "c\<lparr>campaign_status := ''completed''\<rparr>"] cid
    by simp
qed

text \<open>
  C6. When an exception other than \<open>Campaign.DoesNotExist\<close> leaves the body of the
  task's \<open>try\<close>, the task raises that same exception to its caller after the
  handler has run: the campaign row, when it can be loaded, has the status \<open>paused\<close>
  afterwards, and when loading it fails the failure is swallowed and nothing is written.
\<close>

theorem run_level_error:
  assumes "fst (run_campaign_try (\<lambda>k. False) format w pk) = Inl e"
      and "e \<noteq> Campaign_DoesNotExist"
  shows "fst (run_campaign_task format w pk) = Inl e \<and>
         snd (run_campaign_task format w pk) =
           mark_paused (snd (run_campaign_try (\<lambda>k. False) format w pk)) pk \<and>
         (\<forall>c. objects_get (\<lambda>r. campaign_id r = pk) (campaigns w) = Found c \<longrightarrow>
            objects_get (\<lambda>r. campaign_id r = pk) (campaigns (snd (run_campaign_task format w pk))) =
              Found (c\<lparr>campaign_status := ''paused''\<rparr>)) \<and>
         (objects_get (\<lambda>r. campaign_id r = pk) (campaigns w) = Multiple \<longrightarrow>
            snd (run_campaign_task format w pk) = w)"
proof -
  obtain w' where t: "run_campaign_try (\<lambda>k. False) format w pk = (Inl e, w')"
    using assms(1) by (cases "run_campaign_try (\<lambda>k. False) format w pk") auto
  have task: "run_campaign_task format w pk = (Inl e, mark_paused w' pk)"
    using t assms(2) by (simp add: run_campaign_task_def run_campaign_task_interleaved_def)
  have c': "campaigns w' = campaigns w"
    using run_campaign_try_keeps_campaigns[OF assms(1)] t by simp
  have "objects_get (\<lambda>r. campaign_id r = pk) (campaigns (mark_paused w' pk)) =
              Found (c\<lparr>campaign_status := ''paused''\<rparr>)"
    if f: "objects_get (\<lambda>r. campaign_id r = pk) (campaigns w) = Found c" for c
    using objects_get_save_campaign_status[OF f, of "c\<lparr>campaign_status := ''paused''\<rparr>"]
      objects_get_campaign_id[OF f] f c'
    by (simp add: mark_paused_def)
  moreover have "mark_paused w' pk = w"
    if m: "objects_get (\<lambda>r. campaign_id r = pk) (campaigns w) = Multiple"
  proof -
    have "run_campaign_try (\<lambda>k. False) format w pk = (Inl MultipleObjectsReturned, w)"
      using m by (simp add: run_campaign_try_def)
    then have "w' = w" using t by simp
    then show ?thesis using m by (simp add: mark_paused_def)
  qed
  ultimately show ?thesis using task t by simp
qed
theorem run_unknown_segment_witness:
  "run_campaign_task format_template (shop birthday) 1 = (Inr ReturnedNone, shop birthday)"
proof -
  have "objects_get (\<lambda>r. campaign_id r = 1) (campaigns (shop birthday)) = Found birthday"
    by (simp add: objects_get_def shop_defs)
  moreover have "segment_type birthday \<noteq> ''inactive_days''" "segment_type birthday \<noteq> ''high_spenders''"
    by (simp_all add: shop_defs)
  ultimately show ?thesis by (rule run_unknown_segment)
qed

theorem run_campaign_not_found_witness:
  "run_campaign_task format_template (shop winback) 7 =
     (Inr (ErrorDict ''Campaign 7 not found''), shop winback)"
proof -
  have "\<forall>c \<in> set (campaigns (shop winback)). campaign_id c \<noteq> 7"
    by (simp add: shop_defs)
  moreover have "str_int 7 = ''7''"
    by (simp add: str_int_def str_digits.simps digit_char_def)
  ultimately show ?thesis using run_campaign_not_found[of "shop winback" 7 format_template]
    by simp
qed

theorem run_completed_witness:
  "fst (run_campaign_task format_template (shop winback) 1) = Inr (Summary 1 2 2 0) \<and>
   map campaign_status (campaigns (snd (run_campaign_task format_template (shop winback) 1))) =
     [''completed''] \<and>
   fst (run_campaign_task format_template (shop broken) 1) = Inr (Summary 1 2 0 2) \<and>
   map campaign_status (campaigns (snd (run_campaign_task format_template (shop broken) 1))) =
     [''completed'']"
proof -
  have h1: "objects_get (\<lambda>r. campaign_id r = 1) (campaigns (shop broken)) = Found broken"
    by (simp add: objects_get_def shop_defs)
  have h2: "apply_segmentation (shop broken) broken
             (List.filter (\<lambda>x. customer_restaurant x = campaign_restaurant broken)
                (customers (shop broken))) =
           (Inr (Some [never_visited, lapsed]),
            (shop broken)\<lparr>clock := stl (clock (shop broken))\<rparr>)"
    by (simp add: run_defs shop_defs)
  have h3: "unique_together (shop broken) \<and> primary_keys (shop broken)"
    by (simp add: unique_together_def primary_keys_def shop_defs)
  have s: "fst (run_campaign_task format_template (shop broken) 1) = Inr (Summary 1 2 0 2)"
    by (simp add: run_defs shop_defs)
  from run_completed[OF h1 h2, of format_template] s
  have "objects_get (\<lambda>r. campaign_id r = 1)
          (campaigns (snd (run_campaign_task format_template (shop broken) 1))) =
        Found (broken\<lparr>campaign_status := ''completed''\<rparr>)"
    by blast
  moreover have "campaigns (snd (run_campaign_task format_template (shop broken) 1)) =
                 [broken\<lparr>campaign_status := ''completed''\<rparr>]"
    by (simp add: run_defs shop_defs)
  moreover have "fst (run_campaign_task format_template (shop winback) 1) = Inr (Summary 1 2 2 0)"
    by (simp add: run_defs shop_defs)
  moreover have "campaigns (snd (run_campaign_task format_template (shop winback) 1)) =
                 [winback\<lparr>campaign_status := ''completed''\<rparr>]"
    by (simp add: run_defs shop_defs)
  ultimately show ?thesis using s h3 by simp
qed

theorem run_level_error_witness:
  "fst (run_campaign_task format_template (shop far_back) 1) =
     Inl (OverflowError ''date value out of range'') \<and>
   map campaign_status (campaigns (snd (run_campaign_task format_template (shop far_back) 1))) =
     [''paused''] \<and>
   outreach_events (snd (run_campaign_task format_template (shop far_back) 1)) = []"
proof -
  have h1: "fst (run_campaign_try (\<lambda>k. False) format_template (shop far_back) 1) =
              Inl (OverflowError ''date value out of range'')"
    by (simp add: run_defs shop_defs)
  have h2: "OverflowError ''date value out of range'' \<noteq> Campaign_DoesNotExist" by simp
  have f: "objects_get (\<lambda>r. campaign_id r = 1) (campaigns (shop far_back)) = Found far_back"
    by (simp add: objects_get_def shop_defs)
  from run_level_error[OF h1 h2] f
  have "fst (run_campaign_task format_template (shop far_back) 1) =
          Inl (OverflowError ''date value out of range'')"
    and "objects_get (\<lambda>r. campaign_id r = 1)
           (campaigns (snd (run_campaign_task format_template (shop far_back) 1))) =
         Found (far_back\<lparr>campaign_status := ''paused''\<rparr>)"
    by blast+
  moreover have "snd (run_campaign_task format_template (shop far_back) 1) =
      (shop far_back)\<lparr>clock := stl (clock (shop far_back)),
                       campaigns := [far_back\<lparr>campaign_status := ''paused''\<rparr>]\<rparr>"
    by (simp add: run_defs shop_defs)
  ultimately show ?thesis by (simp add: shop_defs)
qed

section \<open>Failures of single events, and pause requests\<close>

text \<open>
  C4. Take a run that loads its campaign and resolves its segment, under the constraints
  of the models, and a selected customer who has no \<open>sent\<close> or \<open>skipped\<close> event yet
  and for whom rendering the template fails. No exception leaves the loop body for that
  customer: the event row is saved with the status \<open>failed\<close> and the error text, both
  \<open>total_failed\<close> and \<open>total_processed\<close> grow by one, and the batch goes on with the
  next customer from that state. The run as a whole returns its totals: afterwards the
  customer's event is \<open>failed\<close> with the error text in \<open>error_message\<close>, the failed
  total counts at least every selected customer without a \<open>sent\<close> or \<open>skipped\<close>
  event whose template does not render, the processed total counts every selected
  customer without a \<open>sent\<close> or \<open>skipped\<close> event, and every selected customer has an
  event that is \<open>sent\<close>, \<open>skipped\<close> or \<open>failed\<close>.
\<close>

theorem render_failure_per_event:
  assumes ut: "unique_together w" and pks: "primary_keys w"
      and found: "objects_get (\<lambda>r. campaign_id r = pk) (campaigns w) = Found c"
      and seg: "apply_segmentation w c
                  (List.filter (\<lambda>x. customer_restaurant x = campaign_restaurant c) (customers w)) =
                (Inr (Some segment), w1)"
      and sel: "customer \<in> set segment"
      and bad: "format (message_template c) (first_name customer) = Inl msg"
      and unsettled: "\<not> settled w pk (customer_id customer)"
  shows "(get_or_create w0 c customer = (Inr (event, created), w0') \<and>
          event_status event \<noteq> ''sent'' \<and> event_status event \<noteq> ''skipped'' \<longrightarrow>
            fst (process_customer format c customer (w0, n0)) = None \<and>
            process_batch format c (customer # rest) (w0, n0) =
              process_batch format c rest
                (w0'\<lparr>outreach_events :=
                      save_event_failure
                        (event\<lparr>event_status := ''failed'', error_message := Some msg\<rparr>)
                        (outreach_events w0')\<rparr>,
                 n0\<lparr>total_failed := total_failed n0 + 1,
                    total_processed := total_processed n0 + 1\<rparr>) \<and>
            event\<lparr>event_status := ''failed'', error_message := Some msg\<rparr> \<in>
              set (save_event_failure
                     (event\<lparr>event_status := ''failed'', error_message := Some msg\<rparr>)
                     (outreach_events w0'))) \<and>
         (\<exists>p s f w'.
            run_campaign_task format w pk = (Inr (Summary pk p s f), w') \<and>
            (\<exists>e \<in> set (outreach_events w').
                event_key e = (pk, customer_id customer) \<and>
                event_status e = ''failed'' \<and> error_message e = Some msg) \<and>
            p = card {cu \<in> set segment. \<not> settled w pk (customer_id cu)} \<and>
            card {cu \<in> set segment. \<not> settled w pk (customer_id cu) \<and>
                                      render_fails format c cu} \<le> f \<and>
            1 \<le> f \<and>
            (\<forall>cu \<in> set segment.
                \<exists>e \<in> set (outreach_events w').
                   event_key e = (pk, customer_id cu) \<and>
                   (event_status e = ''sent'' \<or> event_status e = ''skipped'' \<or>
                    event_status e = ''failed'')))"
proof (intro conjI impI)
  assume a: "get_or_create w0 c customer = (Inr (event, created), w0') \<and>
          event_status event \<noteq> ''sent'' \<and> event_status event \<noteq> ''skipped''"
  have "event \<in> set (outreach_events w0')" using a by (blast intro: get_or_create_member)
  then show "event\<lparr>event_status := ''failed'', error_message := Some msg\<rparr> \<in>
           set (save_event_failure (event\<lparr>event_status := ''failed'', error_message := Some msg\<rparr>)
                  (outreach_events w0'))"
    by (force simp: save_event_failure_def)
  show "fst (process_customer format c customer (w0, n0)) = None"
    using a bad by (simp add: Let_def)
  show "process_batch format c (customer # rest) (w0, n0) =
              process_batch format c rest
                (w0'\<lparr>outreach_events :=
                      save_event_failure
                        (event\<lparr>event_status := ''failed'', error_message := Some msg\<rparr>)
                        (outreach_events w0')\<rparr>,
                 n0\<lparr>total_failed := total_failed n0 + 1,
                    total_processed := total_processed n0 + 1\<rparr>)"
    using a bad by (simp add: Let_def)
next
  let ?n0 = "\<lparr>total_processed = 0, total_sent = 0, total_failed = 0\<rparr>"
  let ?F = "{cu \<in> set segment. \<not> settled w pk (customer_id cu) \<and> render_fails format c cu}"
  have cid: "campaign_id c = pk" using found by (rule objects_get_campaign_id)
  from run_campaign_task_summary[OF ut pks found seg, of format]
  obtain w2 n where rel: "run_rel format c (set segment) (w1, ?n0) (w2, n)"
    and run: "run_campaign_task format w pk =
             (Inr (Summary pk (total_processed n) (total_sent n) (total_failed n)),
              w2\<lparr>campaigns := save_campaign_status (c\<lparr>campaign_status := ''completed''\<rparr>)
                                  (campaigns w)\<rparr>)"
    by blast
  have ev: "outreach_events w1 = outreach_events w"
    using segment_of_customers(3)[OF pks seg] .
  have st: "settled w1 pk k = settled w pk k" for k
    using settled_events[OF ev] .
  have row: "\<exists>e \<in> set (outreach_events w2).
                event_key e = (pk, customer_id customer) \<and>
                event_status e = ''failed'' \<and> error_message e = Some msg"
    using run_rel_failed_row[OF rel sel _ bad] unsettled st cid by simp
  have p: "total_processed n = card {cu \<in> set segment. \<not> settled w pk (customer_id cu)}"
    using run_relD(8)[OF rel] st cid by simp
  have f: "card ?F \<le> total_failed n"
    using run_relD(9)[OF rel] st cid by simp
  have "customer \<in> ?F" using sel unsettled bad by (simp add: render_fails_def)
  then have "card ?F \<noteq> 0" by (auto simp: card_eq_0_iff)
  then have one: "1 \<le> total_failed n" using f by linarith
  have every: "\<forall>cu \<in> set segment.
                \<exists>e \<in> set (outreach_events w2).
                   event_key e = (pk, customer_id cu) \<and>
                   (event_status e = ''sent'' \<or> event_status e = ''skipped'' \<or>
                    event_status e = ''failed'')"
    using run_rel_every_row[OF rel] cid by simp
  show "\<exists>p s f w'.
            run_campaign_task format w pk = (Inr (Summary pk p s f), w') \<and>
            (\<exists>e \<in> set (outreach_events w').
                event_key e = (pk, customer_id customer) \<and>
                event_status e = ''failed'' \<and> error_message e = Some msg) \<and>
            p = card {cu \<in> set segment. \<not> settled w pk (customer_id cu)} \<and>
            card ?F \<le> f \<and> 1 \<le> f \<and>
            (\<forall>cu \<in> set segment.
                \<exists>e \<in> set (outreach_events w').
                   event_key e = (pk, customer_id cu) \<and>
                   (event_status e = ''sent'' \<or> event_status e = ''skipped'' \<or>
                    event_status e = ''failed''))"
    apply (rule exI[of _ "total_processed n"])
    apply (rule exI[of _ "total_sent n"])
    apply (rule exI[of _ "total_failed n"])
    apply (rule exI[of _ "w2\<lparr>campaigns := save_campaign_status (c\<lparr>campaign_status := ''completed''\<rparr>)
                                  (campaigns w)\<rparr>"])
    using run row p f one every by simp
qed

text \<open>
  The template with the stray brace and the two inactive customers: both events end
  \<open>failed\<close> with the formatter's message, and both are counted, in the batch and in
  the run.
\<close>

theorem render_failure_per_event_witness:
  "process_batch format_template broken [never_visited, lapsed]
     (shop broken, \<lparr>total_processed = 0, total_sent = 0, total_failed = 0\<rparr>) =
   (None,
    (shop broken)\<lparr>outreach_events :=
       [\<lparr>event_id = 1, event_campaign = 1, event_customer = 1, channel = ''email'',
         event_status = ''failed'',
         error_message = Some ''Single '}' encountered in format string'', sent_at = None\<rparr>,
        \<lparr>event_id = 2, event_campaign = 1, event_customer = 3, channel = ''email'',
         event_status = ''failed'',
         error_message = Some ''Single '}' encountered in format string'', sent_at = None\<rparr>],
       next_event_id := 3\<rparr>,
    \<lparr>total_processed = 2, total_sent = 0, total_failed = 2\<rparr>) \<and>
   fst (run_campaign_task format_template (shop broken) 1) = Inr (Summary 1 2 0 2) \<and>
   outreach_events (snd (run_campaign_task format_template (shop broken) 1)) =
     [\<lparr>event_id = 1, event_campaign = 1, event_customer = 1, channel = ''email'',
       event_status = ''failed'',
       error_message = Some ''Single '}' encountered in format string'', sent_at = None\<rparr>,
      \<lparr>event_id = 2, event_campaign = 1, event_customer = 3, channel = ''email'',
       event_status = ''failed'',
       error_message = Some ''Single '}' encountered in format string'', sent_at = None\<rparr>]"
proof -
  let ?e = "\<lparr>event_id = 1, event_campaign = 1, event_customer = 1, channel = ''email'',
         event_status = ''queued'', error_message = None, sent_at = None\<rparr>"
  let ?n0 = "\<lparr>total_processed = 0, total_sent = 0, total_failed = 0\<rparr>"
  have ut: "unique_together (shop broken)" and pks: "primary_keys (shop broken)"
    by (simp_all add: unique_together_def primary_keys_def shop_defs)
  have found: "objects_get (\<lambda>r. campaign_id r = 1) (campaigns (shop broken)) = Found broken"
    by (simp add: objects_get_def shop_defs)
  have seg: "apply_segmentation (shop broken) broken
             (List.filter (\<lambda>x. customer_restaurant x = campaign_restaurant broken)
                (customers (shop broken))) =
           (Inr (Some [never_visited, lapsed]),
            (shop broken)\<lparr>clock := stl (clock (shop broken))\<rparr>)"
    by (simp add: run_defs shop_defs)
  have sel: "never_visited \<in> set [never_visited, lapsed]" by simp
  have bad: "format_template (message_template broken) (first_name never_visited) =
              Inl ''Single '}' encountered in format string''"
    by (simp add: shop_defs)
  have unsettled: "\<not> settled (shop broken) 1 (customer_id never_visited)"
    by (simp add: settled_def shop_defs)
  have g: "get_or_create (shop broken) broken never_visited =
          (Inr (?e, True), (shop broken)\<lparr>outreach_events := [?e], next_event_id := 2\<rparr>) \<and>
          event_status ?e \<noteq> ''sent'' \<and> event_status ?e \<noteq> ''skipped''"
    by (simp add: get_or_create_def objects_get_def Let_def shop_defs)
  note t = render_failure_per_event[where format = format_template and ?w0.0 = "shop broken"
      and ?n0.0 = ?n0 and rest = "[lapsed]" and event = ?e and created = True
      and ?w0' = "(shop broken)\<lparr>outreach_events := [?e], next_event_id := 2\<rparr>",
      OF ut pks found seg sel bad unsettled]
  from t g have step: "process_batch format_template broken [never_visited, lapsed] (shop broken, ?n0) =
      process_batch format_template broken [lapsed]
        ((shop broken)\<lparr>outreach_events := [?e], next_event_id := 2,
            outreach_events :=
              save_event_failure
                (?e\<lparr>event_status := ''failed'',
                     error_message := Some ''Single '}' encountered in format string''\<rparr>)
                (outreach_events ((shop broken)\<lparr>outreach_events := [?e], next_event_id := 2\<rparr>))\<rparr>,
         ?n0\<lparr>total_failed := total_failed ?n0 + 1, total_processed := total_processed ?n0 + 1\<rparr>)"
    by blast
  from t obtain p s f w' where
    run: "run_campaign_task format_template (shop broken) 1 = (Inr (Summary 1 p s f), w')"
    and p: "p = card {cu \<in> set [never_visited, lapsed].
                      \<not> settled (shop broken) 1 (customer_id cu)}"
    by blast
  have "{cu \<in> set [never_visited, lapsed]. \<not> settled (shop broken) 1 (customer_id cu)} =
        {never_visited, lapsed}"
    by (auto simp: settled_def shop_defs)
  moreover have "never_visited \<noteq> lapsed" by (simp add: shop_defs)
  ultimately have "p = 2" using p by simp
  moreover have "fst (run_campaign_task format_template (shop broken) 1) = Inr (Summary 1 2 0 2)"
    by (simp add: run_defs shop_defs)
  moreover have "outreach_events (snd (run_campaign_task format_template (shop broken) 1)) =
     [\<lparr>event_id = 1, event_campaign = 1, event_customer = 1, channel = ''email'',
       event_status = ''failed'',
       error_message = Some ''Single '}' encountered in format string'', sent_at = None\<rparr>,
      \<lparr>event_id = 2, event_campaign = 1, event_customer = 3, channel = ''email'',
       event_status = ''failed'',
       error_message = Some ''Single '}' encountered in format string'', sent_at = None\<rparr>]"
    by (simp add: run_defs shop_defs)
  moreover have "process_batch format_template broken [never_visited, lapsed] (shop broken, ?n0) =
   (None,
    (shop broken)\<lparr>outreach_events :=
       [\<lparr>event_id = 1, event_campaign = 1, event_customer = 1, channel = ''email'',
         event_status = ''failed'',
         error_message = Some ''Single '}' encountered in format string'', sent_at = None\<rparr>,
        \<lparr>event_id = 2, event_campaign = 1, event_customer = 3, channel = ''email'',
         event_status = ''failed'',
         error_message = Some ''Single '}' encountered in format string'', sent_at = None\<rparr>],
       next_event_id := 3\<rparr>,
    \<lparr>total_processed = 2, total_sent = 0, total_failed = 2\<rparr>)"
    unfolding step
    by (simp add: get_or_create_def objects_get_def save_event_failure_def Let_def shop_defs)
  ultimately show ?thesis by simp
qed

text \<open>
  The task reads the campaign once, when it starts, and never looks at its status
  again: whatever pause requests are served between its batches, it returns the same
  result and leaves the same store as the run that no request interrupts.
\<close>

lemma pause_requests_not_read:
  "run_campaign_task_interleaved pause_at format w pk = run_campaign_task format w pk"
proof (cases "objects_get (\<lambda>r. campaign_id r = pk) (campaigns w)")
  case DoesNotExist
  then show ?thesis
    by (simp add: run_campaign_task_def run_campaign_task_interleaved_def run_campaign_try_def)
next
  case Multiple
  then show ?thesis
    by (simp add: run_campaign_task_def run_campaign_task_interleaved_def run_campaign_try_def)
next
  case (Found c)
  let ?qs = "List.filter (\<lambda>x. customer_restaurant x = campaign_restaurant c) (customers w)"
  let ?n0 = "\<lparr>total_processed = 0, total_sent = 0, total_failed = 0\<rparr>"
  have cid: "campaign_id c = pk" using Found by (rule objects_get_campaign_id)
  obtain r w1 where seg: "apply_segmentation w c ?qs = (r, w1)" by (cases "apply_segmentation w c ?qs")
  from apply_segmentation_frame[of w c ?qs] seg
  obtain ck where w1: "w1 = w\<lparr>clock := ck\<rparr>" by auto
  show ?thesis
  proof (cases r)
    case (Inl e)
    then show ?thesis using Found seg
      by (simp add: run_campaign_task_def run_campaign_task_interleaved_def run_campaign_try_def)
  next
    case (Inr sel)
    show ?thesis
    proof (cases sel)
      case None
      then show ?thesis using Found seg Inr
        by (simp add: run_campaign_task_def run_campaign_task_interleaved_def run_campaign_try_def)
    next
      case (Some segment)
      have found1: "objects_get (\<lambda>r. campaign_id r = campaign_id c) (campaigns w1) = Found c"
        using Found cid by (simp add: w1)
      obtain r2 w2 n where seq: "process_batches (\<lambda>k. False) format c 0 (map customer_id segment) (w1, ?n0) = (r2, w2, n)"
        by (metis prod_cases3)
      have c2: "campaigns w2 = campaigns w"
        using process_batches_keeps_campaigns[of format c 0 "map customer_id segment" w1 ?n0] seq
        by (simp add: w1)
      from process_batches_interleaved[OF found1, of "campaigns w1" pause_at format 0
          "map customer_id segment" ?n0]
      obtain X' where X': "X' = campaigns w \<or>
               X' = save_campaign_status (c\<lparr>campaign_status := ''paused''\<rparr>) (campaigns w)"
        and inter: "process_batches pause_at format c 0 (map customer_id segment) (w1, ?n0) =
                    (r2, w2\<lparr>campaigns := X'\<rparr>, n)"
        using seq by (auto simp: w1)
      have X2: "X' = campaigns w2 \<or>
               X' = save_campaign_status (c\<lparr>campaign_status := ''paused''\<rparr>) (campaigns w2)"
        using X' c2 by simp
      have found2: "objects_get (\<lambda>r. campaign_id r = pk) (campaigns w2) = Found c"
        using Found c2 by simp
      show ?thesis
      proof (cases r2)
        case None
        have "save_campaign_status (c\<lparr>campaign_status := ''completed''\<rparr>) X' =
              save_campaign_status (c\<lparr>campaign_status := ''completed''\<rparr>) (campaigns w2)"
          using X2 by (rule completed_two)
        then show ?thesis using Found seg Inr Some seq inter None
          by (simp add: run_campaign_task_def run_campaign_task_interleaved_def
              run_campaign_try_def Let_def)
      next
        case (Some e)
        have "mark_paused (w2\<lparr>campaigns := X'\<rparr>) pk = mark_paused w2 pk"
          using found2 X2 by (rule mark_paused_two)
        moreover have "e = MultipleObjectsReturned"
          using process_batches_error[OF seq[unfolded Some]] .
        ultimately show ?thesis using Found seg Inr \<open>sel = Some segment\<close> seq inter Some
          by (simp add: run_campaign_task_def run_campaign_task_interleaved_def
              run_campaign_try_def Let_def)
      qed
    qed
  qed
qed

text \<open>
  The 201 customers of the example have 201 email addresses, as the constraint on
  (restaurant, email) of the Customer model requires.
\<close>

lemma crowd_emails:
  "distinct (map (\<lambda>c. (customer_restaurant c, email c)) (customers crowd))"
  by (simp add: crowd_def guest_def upt_rec str_int_def str_digits.simps digit_char_def)

text \<open>
  C8. The task does not observe a pause request. Take the restaurant with 201 customers
  (distinct primary keys, distinct email addresses) and the running campaign that
  selects them all. The request that \<open>campaign_pause\<close> serves after the first batch of
  200 writes \<open>paused\<close>, and the run still processes the second batch: all 201
  customers are processed and have an event, and the run ends by writing \<open>completed\<close>
  over \<open>paused\<close>.
\<close>

theorem pause_request_ignored:
  "distinct (map customer_id (customers crowd)) \<and>
   distinct (map (\<lambda>c. (customer_restaurant c, email c)) (customers crowd)) \<and>
   map campaign_status (campaigns crowd) = [''running''] \<and>
   map campaign_status (campaigns (snd (campaign_pause crowd 1))) = [''paused''] \<and>
   processed_count (fst (run_campaign_task_interleaved after_first_batch format_template crowd 1)) = 201 \<and>
   length (outreach_events (snd (run_campaign_task_interleaved after_first_batch format_template crowd 1))) = 201 \<and>
   map campaign_status
     (campaigns (snd (run_campaign_task_interleaved after_first_batch format_template crowd 1))) =
     [''completed'']"
proof -
  let ?n0 = "\<lparr>total_processed = 0, total_sent = 0, total_failed = 0\<rparr>"
  have paused: "map campaign_status (campaigns (snd (campaign_pause crowd 1))) = [''paused'']"
    by (simp add: campaign_pause_def objects_get_def save_campaign_status_def crowd_def
        everyone_def winback_def)
  have ut: "unique_together crowd" by (simp add: unique_together_def crowd_def)
  have ids: "map customer_id (map guest xs) = map int xs" for xs
    by (simp add: guest_def)
  have dist: "distinct (map customer_id (map guest [1..<202]))"
    unfolding ids by (simp add: distinct_map)
  then have pks: "primary_keys crowd"
    by (simp add: primary_keys_def crowd_def del: map_map)
  have found: "objects_get (\<lambda>r. campaign_id r = 1) (campaigns crowd) = Found everyone"
    by (simp add: objects_get_def crowd_def everyone_def winback_def)
  have all: "List.filter (\<lambda>x. customer_restaurant x = campaign_restaurant everyone) (customers crowd)
             = map guest [1..<202]"
    by (simp add: crowd_def everyone_def winback_def guest_def filter_map comp_def)
  have seg: "apply_segmentation crowd everyone
               (List.filter (\<lambda>x. customer_restaurant x = campaign_restaurant everyone) (customers crowd)) =
             (Inr (Some (map guest [1..<202])), crowd)"
    unfolding all
    by (simp add: apply_segmentation_def high_spenders_def everyone_def winback_def guest_def
        filter_map comp_def)
  from run_interleaved_summary[where pause_at = after_first_batch and format = format_template,
      OF ut pks found seg]
  obtain w2 n where rel: "run_rel format_template everyone (set (map guest [1..<202])) (crowd, ?n0) (w2, n)"
    and run: "run_campaign_task_interleaved after_first_batch format_template crowd 1 =
             (Inr (Summary 1 (total_processed n) (total_sent n) (total_failed n)),
              w2\<lparr>campaigns := save_campaign_status (everyone\<lparr>campaign_status := ''completed''\<rparr>)
                                  (campaigns crowd)\<rparr>)"
    by blast
  define G where "G = set (map guest [1..<202])"
  have cardG: "card G = 201"
    unfolding G_def using distinct_card[OF distinct_map[THEN iffD1, THEN conjunct1, OF dist]]
    by simp
  have inj: "inj_on customer_id G"
    unfolding G_def using dist by (simp only: distinct_map)
  have none: "{cu \<in> G. \<not> settled crowd (campaign_id everyone) (customer_id cu)} = G"
    by (simp add: settled_def crowd_def)
  have rel': "run_rel format_template everyone G (crowd, ?n0) (w2, n)" using rel unfolding G_def .
  have "total_processed n = 201"
    using run_relD(8)[OF rel'] none cardG by simp
  moreover have "length (outreach_events w2) = 201"
  proof -
    have "distinct (map event_key (outreach_events w2))"
      using run_relD(1)[OF rel'] by (simp add: unique_together_def)
    then have "length (outreach_events w2) = card (event_key ` set (outreach_events w2))"
      by (rule length_card_keys)
    moreover have "event_key ` set (outreach_events w2) =
                   Pair (campaign_id everyone) ` customer_id ` G"
      using run_relD(3)[OF rel'] by (simp add: crowd_def)
    moreover have "card (Pair (campaign_id everyone) ` customer_id ` G) = card (customer_id ` G)"
      by (rule card_image) (simp add: inj_on_def)
    moreover have "card (customer_id ` G) = card G"
      using inj by (rule card_image)
    ultimately show ?thesis using cardG by simp
  qed
  moreover have "map campaign_status
      (save_campaign_status (everyone\<lparr>campaign_status := ''completed''\<rparr>) (campaigns crowd)) =
      [''completed'']"
    by (simp add: save_campaign_status_def crowd_def)
  moreover have "distinct (map customer_id (customers crowd))"
    using pks by (simp add: primary_keys_def)
  moreover have "map campaign_status (campaigns crowd) = [''running'']"
    by (simp add: crowd_def everyone_def winback_def)
  ultimately show ?thesis
    using paused run crowd_emails by simp
qed

section \<open>Running a campaign twice\<close>





end
